theory Spec2Isabelle
  imports Main
begin

section \<open>Handlers and decorators (middleware.go)\<close>

text \<open>
  A Go panic is a value of the model. \<open>NilDereference\<close> is the runtime panic of
  calling a nil function value or a method through a nil pointer, \<open>NilMapWrite\<close> the one
  of assigning into a nil map, \<open>IndexOutOfRange\<close> and \<open>SliceBounds\<close> the ones of
  indexing and reslicing out of range, and \<open>PanicMsg\<close> an explicit \<^verbatim>\<open>panic(msg)\<close>
  of the source.
\<close>

datatype panic = NilDereference | NilMapWrite | IndexOutOfRange | SliceBounds | PanicMsg string

text \<open>
  \<^verbatim>\<open>type HandlerFunc func(c *Context) error\<close>. A handler runs against the state it can
  reach through its Context, here the type variable \<open>'s\<close>, and either returns an error
  (\<open>None\<close> is the nil error, \<open>Some msg\<close> an error whose \<^verbatim>\<open>Error()\<close> is \<open>msg\<close>) or
  panics. A Go function value may be nil: \<open>None\<close> in \<open>HandlerFunc\<close> and in
  \<open>MiddlewareFunc\<close>.
\<close>

datatype outcome = Returned "string option" | Panicked panic

type_synonym 's handler = "'s \<Rightarrow> 's \<times> outcome"

type_synonym 'f HandlerFunc = "'f option"

type_synonym 'f MiddlewareFunc = "('f HandlerFunc \<Rightarrow> 'f HandlerFunc) option"

text \<open>The call \<^verbatim>\<open>h(c)\<close> of a handler value; calling nil panics.\<close>

definition call :: "('s handler) HandlerFunc \<Rightarrow> 's handler" where
  "call h s = (case h of None \<Rightarrow> (s, Panicked NilDereference) | Some f \<Rightarrow> f s)"

text \<open>
  \<^verbatim>\<open>for i := len(mw) - 1; i >= 0; i-- { h = mw[i](h) }\<close>. The loop's counter \<open>n\<close> is
  \<open>i + 1\<close>: the step at \<open>Suc i\<close> applies \<open>mw[i]\<close>, which panics when that decorator
  is nil.
\<close>

fun applyMiddleware_loop ::
  "'f MiddlewareFunc list \<Rightarrow> nat \<Rightarrow> 'f HandlerFunc \<Rightarrow> panic + 'f HandlerFunc" where
  "applyMiddleware_loop mw 0 h = Inr h"
| "applyMiddleware_loop mw (Suc i) h =
     (case mw ! i of
        None \<Rightarrow> Inl NilDereference
      | Some d \<Rightarrow> applyMiddleware_loop mw i (d h))"

definition applyMiddleware ::
  "'f HandlerFunc \<Rightarrow> 'f MiddlewareFunc list \<Rightarrow> panic + 'f HandlerFunc" where
  "applyMiddleware h mw = applyMiddleware_loop mw (length mw) h"

text \<open>Running what a composition returned: a panic of the composition is the outcome.\<close>

definition run :: "panic + ('s handler) HandlerFunc \<Rightarrow> 's handler" where
  "run r s = (case r of Inl p \<Rightarrow> (s, Panicked p) | Inr h \<Rightarrow> call h s)"

text \<open>
  The decorator shape of the doc comment of \<^verbatim>\<open>MiddlewareFunc\<close>: work before
  (\<open>pre\<close>), one call of \<^verbatim>\<open>next\<close>, work after (\<open>post\<close>), the error of \<^verbatim>\<open>next\<close>
  returned. A panic of \<^verbatim>\<open>next\<close> unwinds through the decorator, so its work after does
  not run.
\<close>

definition passthrough_fn ::
  "('s \<Rightarrow> 's) \<Rightarrow> ('s \<Rightarrow> 's) \<Rightarrow> ('s handler) HandlerFunc \<Rightarrow> ('s handler) HandlerFunc" where
  "passthrough_fn pre post next =
     Some (\<lambda>s.
       case call next (pre s) of
         (s1, Returned err) \<Rightarrow> (post s1, Returned err)
       | (s1, Panicked p) \<Rightarrow> (s1, Panicked p))"

definition passthrough :: "('s \<Rightarrow> 's) \<Rightarrow> ('s \<Rightarrow> 's) \<Rightarrow> ('s handler) MiddlewareFunc" where
  "passthrough pre post = Some (passthrough_fn pre post)"

text \<open>
  A decorator that never invokes \<^verbatim>\<open>next\<close> (as \<^verbatim>\<open>RequirePeer\<close> does for an
  unauthenticated peer): the handler it returns is its own.
\<close>

definition shortcircuit :: "'s handler \<Rightarrow> ('s handler) MiddlewareFunc" where
  "shortcircuit own = Some (\<lambda>next. Some own)"

text \<open>Handlers and decorators that record their execution in a trace of events.\<close>

definition emit :: "string \<Rightarrow> string list \<Rightarrow> string list" where
  "emit e tr = tr @ [e]"

definition tracing_handler :: "string \<Rightarrow> (string list) handler" where
  "tracing_handler name tr = (emit name tr, Returned None)"

definition tracing :: "string \<Rightarrow> ((string list) handler) MiddlewareFunc" where
  "tracing name = passthrough (emit (name @ ''-before'')) (emit (name @ ''-after''))"

section \<open>Decorator sequences as values (router.go: combineMW)\<close>

text \<open>
  The value of a Go slice is the list of its elements. \<^verbatim>\<open>make([]T, n)\<close> gives \<open>n\<close> zero
  values (nil for a function type), and \<^verbatim>\<open>copy(dst, src)\<close> overwrites the first
  \<open>min (len dst) (len src)\<close> elements of \<open>dst\<close>; \<open>copy_slice\<close> is the value of \<open>dst\<close>
  afterwards. The backing storage of slices is modelled further below.
\<close>

definition make_slice :: "nat \<Rightarrow> 'a option list" where
  "make_slice n = replicate n None"

definition copy_slice :: "'a list \<Rightarrow> 'a list \<Rightarrow> 'a list" where
  "copy_slice dst src = (let n = min (length dst) (length src) in take n src @ drop n dst)"

text \<open>
  \<^verbatim>\<open>combined := make([]MiddlewareFunc, len(a)+len(b)); copy(combined, a);
  copy(combined[len(a):], b); return combined\<close>. The second copy writes through the
  subslice into the elements of \<open>combined\<close> from index \<open>len(a)\<close> on.
\<close>

definition combineMW :: "'a option list \<Rightarrow> 'a option list \<Rightarrow> 'a option list" where
  "combineMW a b =
     (let combined = make_slice (length a + length b);
          combined = copy_slice combined a;
          combined = take (length a) combined @ copy_slice (drop (length a) combined) b
      in combined)"

section \<open>The Router (router.go)\<close>

record 'f route =
  handler :: "'f HandlerFunc"
  middleware :: "'f MiddlewareFunc list"

record 'f prefixRoute =
  prefix :: string
  route :: "'f route"

text \<open>
  \<^verbatim>\<open>exact map[string]*route\<close> is one table for both kinds of exact route. A Go map may be
  nil (the zero \<^verbatim>\<open>Router{}\<close>): reading a nil map finds nothing, assigning into it
  panics. \<open>notFound\<close> is nil until \<^verbatim>\<open>SetNotFound\<close>.
\<close>

record 'f Router =
  exact :: "(string \<rightharpoonup> 'f route) option"
  prefixes :: "'f prefixRoute list"
  notFound :: "'f HandlerFunc"

definition NewRouter :: "'f Router" where
  "NewRouter = \<lparr>exact = Some Map.empty, prefixes = [], notFound = None\<rparr>"

text \<open>The map read \<^verbatim>\<open>r, ok := m[key]\<close> and the map write \<^verbatim>\<open>m[key] = v\<close>.\<close>

definition map_read :: "('k \<rightharpoonup> 'v) option \<Rightarrow> 'k \<Rightarrow> 'v option" where
  "map_read m key = (case m of None \<Rightarrow> None | Some t \<Rightarrow> t key)"

definition map_write :: "('k \<rightharpoonup> 'v) option \<Rightarrow> 'k \<Rightarrow> 'v \<Rightarrow> panic + ('k \<rightharpoonup> 'v) option" where
  "map_write m key v = (case m of None \<Rightarrow> Inl NilMapWrite | Some t \<Rightarrow> Inr (Some (t(key \<mapsto> v))))"

definition Router_Handle ::
  "string \<Rightarrow> 'f HandlerFunc \<Rightarrow> 'f MiddlewareFunc list \<Rightarrow> 'f Router \<Rightarrow> panic + 'f Router" where
  "Router_Handle path h mw rt =
     (case map_write (exact rt) path \<lparr>handler = h, middleware = mw\<rparr> of
        Inl p \<Rightarrow> Inl p
      | Inr m \<Rightarrow> Inr (rt\<lparr>exact := m\<rparr>))"

definition Router_Method ::
  "string \<Rightarrow> string \<Rightarrow> 'f HandlerFunc \<Rightarrow> 'f MiddlewareFunc list \<Rightarrow> 'f Router \<Rightarrow> panic + 'f Router" where
  "Router_Method method path h mw rt =
     (let key = method @ '' '' @ path in
      case map_write (exact rt) key \<lparr>handler = h, middleware = mw\<rparr> of
        Inl p \<Rightarrow> Inl p
      | Inr m \<Rightarrow> Inr (rt\<lparr>exact := m\<rparr>))"

text \<open>
  The method tokens are constants of the nwep package, which is not part of this
  repository; their values are the ones the doc comments of \<^verbatim>\<open>Router.Read\<close>,
  \<^verbatim>\<open>Router.Write\<close>, \<^verbatim>\<open>Router.Update\<close> and \<^verbatim>\<open>Router.Delete\<close> give.
\<close>

definition MethodRead :: string where "MethodRead = ''read''"
definition MethodWrite :: string where "MethodWrite = ''write''"
definition MethodUpdate :: string where "MethodUpdate = ''update''"
definition MethodDelete :: string where "MethodDelete = ''delete''"

definition Router_Read ::
  "string \<Rightarrow> 'f HandlerFunc \<Rightarrow> 'f MiddlewareFunc list \<Rightarrow> 'f Router \<Rightarrow> panic + 'f Router" where
  "Router_Read path h mw rt = Router_Method MethodRead path h mw rt"

definition Router_Write ::
  "string \<Rightarrow> 'f HandlerFunc \<Rightarrow> 'f MiddlewareFunc list \<Rightarrow> 'f Router \<Rightarrow> panic + 'f Router" where
  "Router_Write path h mw rt = Router_Method MethodWrite path h mw rt"

definition Router_Update ::
  "string \<Rightarrow> 'f HandlerFunc \<Rightarrow> 'f MiddlewareFunc list \<Rightarrow> 'f Router \<Rightarrow> panic + 'f Router" where
  "Router_Update path h mw rt = Router_Method MethodUpdate path h mw rt"

definition Router_Delete ::
  "string \<Rightarrow> 'f HandlerFunc \<Rightarrow> 'f MiddlewareFunc list \<Rightarrow> 'f Router \<Rightarrow> panic + 'f Router" where
  "Router_Delete path h mw rt = Router_Method MethodDelete path h mw rt"

definition Router_HandlePrefix ::
  "string \<Rightarrow> 'f HandlerFunc \<Rightarrow> 'f MiddlewareFunc list \<Rightarrow> 'f Router \<Rightarrow> 'f Router" where
  "Router_HandlePrefix p h mw rt =
     rt\<lparr>prefixes := prefixes rt @ [\<lparr>prefix = p, route = \<lparr>handler = h, middleware = mw\<rparr>\<rparr>]\<rparr>"

definition Router_SetNotFound :: "'f HandlerFunc \<Rightarrow> 'f Router \<Rightarrow> 'f Router" where
  "Router_SetNotFound h rt = rt\<lparr>notFound := h\<rparr>"

text \<open>
  \<^verbatim>\<open>strings.HasPrefix(s, prefix)\<close> of the Go library:
  \<^verbatim>\<open>len(s) >= len(prefix) && s[:len(prefix)] == prefix\<close>, on bytes.
\<close>

definition HasPrefix :: "string \<Rightarrow> string \<Rightarrow> bool" where
  "HasPrefix s p = (length p \<le> length s \<and> take (length p) s = p)"

text \<open>
  The scan of \<^verbatim>\<open>Find\<close> over \<^verbatim>\<open>rt.prefixes\<close>, with its two variables \<^verbatim>\<open>best\<close>
  (nil at first) and \<^verbatim>\<open>bestLen\<close> (0 at first).
\<close>

fun prefix_scan ::
  "'f prefixRoute list \<Rightarrow> string \<Rightarrow> 'f route option \<Rightarrow> nat \<Rightarrow> 'f route option" where
  "prefix_scan [] path best bestLen = best"
| "prefix_scan (pr # prs) path best bestLen =
     (if HasPrefix path (prefix pr) \<and> length (prefix pr) > bestLen
      then prefix_scan prs path (Some (route pr)) (length (prefix pr))
      else prefix_scan prs path best bestLen)"

definition Router_Find ::
  "'f Router \<Rightarrow> string \<Rightarrow> string \<Rightarrow> 'f MiddlewareFunc list \<Rightarrow> panic + 'f HandlerFunc" where
  "Router_Find rt path method globalMW =
     (case map_read (exact rt) (method @ '' '' @ path) of
        Some r \<Rightarrow> applyMiddleware (handler r) (combineMW globalMW (middleware r))
      | None \<Rightarrow>
     (case map_read (exact rt) path of
        Some r \<Rightarrow> applyMiddleware (handler r) (combineMW globalMW (middleware r))
      | None \<Rightarrow>
     (case prefix_scan (prefixes rt) path None 0 of
        Some best \<Rightarrow> applyMiddleware (handler best) (combineMW globalMW (middleware best))
      | None \<Rightarrow>
     (case notFound rt of
        Some nf \<Rightarrow> applyMiddleware (Some nf) globalMW
      | None \<Rightarrow> Inr None))))"

section \<open>Groups (router.go)\<close>

text \<open>
  A Group holds its prefix, its decorators and a pointer to the Router it registers on.
  The Router's state is passed to each registration and returned updated, so the pointer
  is not a field here.
\<close>

record 'f Group =
  group_prefix :: string
  group_middleware :: "'f MiddlewareFunc list"

definition Router_Group :: "string \<Rightarrow> 'f MiddlewareFunc list \<Rightarrow> 'f Group" where
  "Router_Group p mw = \<lparr>group_prefix = p, group_middleware = mw\<rparr>"

definition Group_Handle ::
  "'f Group \<Rightarrow> string \<Rightarrow> 'f HandlerFunc \<Rightarrow> 'f MiddlewareFunc list \<Rightarrow> 'f Router \<Rightarrow> panic + 'f Router" where
  "Group_Handle g path h mw rt =
     Router_Handle (group_prefix g @ path) h (combineMW (group_middleware g) mw) rt"

definition Group_Method ::
  "'f Group \<Rightarrow> string \<Rightarrow> string \<Rightarrow> 'f HandlerFunc \<Rightarrow> 'f MiddlewareFunc list \<Rightarrow> 'f Router \<Rightarrow>
   panic + 'f Router" where
  "Group_Method g method path h mw rt =
     Router_Method method (group_prefix g @ path) h (combineMW (group_middleware g) mw) rt"

definition Group_Read ::
  "'f Group \<Rightarrow> string \<Rightarrow> 'f HandlerFunc \<Rightarrow> 'f MiddlewareFunc list \<Rightarrow> 'f Router \<Rightarrow> panic + 'f Router" where
  "Group_Read g path h mw rt = Group_Method g MethodRead path h mw rt"

definition Group_Write ::
  "'f Group \<Rightarrow> string \<Rightarrow> 'f HandlerFunc \<Rightarrow> 'f MiddlewareFunc list \<Rightarrow> 'f Router \<Rightarrow> panic + 'f Router" where
  "Group_Write g path h mw rt = Group_Method g MethodWrite path h mw rt"

definition Group_Update ::
  "'f Group \<Rightarrow> string \<Rightarrow> 'f HandlerFunc \<Rightarrow> 'f MiddlewareFunc list \<Rightarrow> 'f Router \<Rightarrow> panic + 'f Router" where
  "Group_Update g path h mw rt = Group_Method g MethodUpdate path h mw rt"

definition Group_Delete ::
  "'f Group \<Rightarrow> string \<Rightarrow> 'f HandlerFunc \<Rightarrow> 'f MiddlewareFunc list \<Rightarrow> 'f Router \<Rightarrow> panic + 'f Router" where
  "Group_Delete g path h mw rt = Group_Method g MethodDelete path h mw rt"

definition Group_HandlePrefix ::
  "'f Group \<Rightarrow> string \<Rightarrow> 'f HandlerFunc \<Rightarrow> 'f MiddlewareFunc list \<Rightarrow> 'f Router \<Rightarrow> 'f Router" where
  "Group_HandlePrefix g p h mw rt =
     Router_HandlePrefix (group_prefix g @ p) h (combineMW (group_middleware g) mw) rt"

definition Group_Group :: "'f Group \<Rightarrow> string \<Rightarrow> 'f MiddlewareFunc list \<Rightarrow> 'f Group" where
  "Group_Group g p mw =
     \<lparr>group_prefix = group_prefix g @ p, group_middleware = combineMW (group_middleware g) mw\<rparr>"

section \<open>The pooled Context (context.go)\<close>

text \<open>
  \<^verbatim>\<open>nwep.Request\<close> and \<^verbatim>\<open>nwep.ResponseWriter\<close> belong to the transport package, which
  is not part of this repository. Of a request the fields read here are kept; a response
  writer and a Server are known to a Context by their address only. A value of the store
  is a Go \<^verbatim>\<open>any\<close>, which may itself be nil (\<open>None\<close>); the store is nil until the first
  \<^verbatim>\<open>Set\<close>.
\<close>

record Request =
  Path :: string
  Method :: string
  Body :: string

record 'v Context =
  Response :: "nat option"
  Request :: "Request option"
  server :: "nat option"
  store :: "(string \<rightharpoonup> 'v option) option"

text \<open>
  \<^verbatim>\<open>sync.Pool\<close>: \<^verbatim>\<open>Get\<close> hands out any one of the pooled objects, or a fresh
  \<^verbatim>\<open>&Context{}\<close> from \<^verbatim>\<open>New\<close>, also when the pool is not empty (the runtime may
  drop pooled objects at any time). The choice is an argument: \<open>Some i\<close> takes the
  \<open>i\<close>-th pooled object when there is one, everything else allocates.
\<close>

definition new_Context :: "'v Context" where
  "new_Context = \<lparr>Response = None, Request = None, server = None, store = None\<rparr>"

definition pool_Get :: "nat option \<Rightarrow> 'v Context list \<Rightarrow> 'v Context \<times> 'v Context list" where
  "pool_Get choice pool =
     (case choice of
        None \<Rightarrow> (new_Context, pool)
      | Some i \<Rightarrow> if i < length pool then (pool ! i, take i pool @ drop (Suc i) pool)
                 else (new_Context, pool))"

definition pool_Put :: "'v Context \<Rightarrow> 'v Context list \<Rightarrow> 'v Context list" where
  "pool_Put c pool = c # pool"

definition acquireContext ::
  "nat \<Rightarrow> Request \<Rightarrow> nat \<Rightarrow> nat option \<Rightarrow> 'v Context list \<Rightarrow> 'v Context \<times> 'v Context list" where
  "acquireContext w r s choice pool =
     (case pool_Get choice pool of (c, pool') \<Rightarrow>
        (let c = c\<lparr>Response := Some w\<rparr>;
             c = c\<lparr>Request := Some r\<rparr>;
             c = c\<lparr>server := Some s\<rparr>;
             c = c\<lparr>store := None\<rparr>
         in (c, pool')))"

definition releaseContext :: "'v Context \<Rightarrow> 'v Context list \<Rightarrow> 'v Context list" where
  "releaseContext c pool =
     (let c = c\<lparr>Response := None\<rparr>;
          c = c\<lparr>Request := None\<rparr>;
          c = c\<lparr>server := None\<rparr>;
          c = c\<lparr>store := None\<rparr>
      in pool_Put c pool)"

text \<open>
  \<^verbatim>\<open>if c.store == nil { c.store = make(map[string]any) }; c.store[key] = val\<close>
\<close>

definition Context_Set :: "string \<Rightarrow> 'v option \<Rightarrow> 'v Context \<Rightarrow> 'v Context" where
  "Context_Set key val c =
     (let m = (case store c of None \<Rightarrow> Map.empty | Some m \<Rightarrow> m)
      in c\<lparr>store := Some (m(key \<mapsto> val))\<rparr>)"

definition Context_Get :: "'v Context \<Rightarrow> string \<Rightarrow> 'v option \<times> bool" where
  "Context_Get c key =
     (case store c of
        None \<Rightarrow> (None, False)
      | Some m \<Rightarrow> (case m key of None \<Rightarrow> (None, False) | Some v \<Rightarrow> (v, True)))"

definition Context_MustGet :: "'v Context \<Rightarrow> string \<Rightarrow> panic + 'v option" where
  "Context_MustGet c key =
     (case Context_Get c key of (v, ok) \<Rightarrow>
        if \<not> ok then Inl (PanicMsg (''velocity: context key not found: '' @ key))
        else Inr v)"

text \<open>
  \<^verbatim>\<open>nwep.StatusNotFound\<close> is a constant of the transport package; its value is the one
  the doc comments of \<^verbatim>\<open>Context.NotFound\<close> and \<^verbatim>\<open>Router\<close> give. The method
  \<^verbatim>\<open>ResponseWriter.Respond\<close> is the transport's too: it is the argument \<open>Respond\<close>,
  acting on the state \<open>'e\<close> of the world outside this package and returning the error of
  the write.
\<close>

definition StatusNotFound :: string where
  "StatusNotFound = ''not_found''"

definition Context_NotFound ::
  "(nat \<Rightarrow> string \<Rightarrow> string \<Rightarrow> 'e \<Rightarrow> 'e \<times> string option) \<Rightarrow> 'v Context \<Rightarrow> string \<Rightarrow> 'e \<Rightarrow> 'e \<times> outcome" where
  "Context_NotFound Respond c msg env =
     (case Response c of
        None \<Rightarrow> (env, Panicked NilDereference)
      | Some w \<Rightarrow> (case Respond w StatusNotFound msg env of (env1, err) \<Rightarrow> (env1, Returned err)))"

section \<open>The Dispatcher (velocity.go: buildHandler)\<close>

text \<open>
  Of a Server the Dispatcher reads its router, its global decorators and its logger; the
  Server's address is what a Context keeps of it. A handler runs against its Context and
  the outside world. \<^verbatim>\<open>Logger.Error\<close> is an interface method supplied by the caller:
  the field \<open>logger_Error\<close>, given the message and the key-value arguments.
\<close>

record ('v, 'e) Server =
  server_addr :: nat
  router :: "(('v Context \<times> 'e) handler) Router"
  mw :: "(('v Context \<times> 'e) handler) MiddlewareFunc list"
  logger_Error :: "string \<Rightarrow> string list \<Rightarrow> 'e \<Rightarrow> 'e"

text \<open>
  The state of a dispatch is the pool and the outside world; the result says whether the
  call panicked. \<^verbatim>\<open>defer releaseContext(c)\<close> runs on every way out, also under a
  panic, which then goes on to the caller.
\<close>

definition buildHandler ::
  "(nat \<Rightarrow> string \<Rightarrow> string \<Rightarrow> 'e \<Rightarrow> 'e \<times> string option) \<Rightarrow> ('v, 'e) Server \<Rightarrow> nat \<Rightarrow> Request \<Rightarrow>
   nat option \<Rightarrow> 'v Context list \<times> 'e \<Rightarrow> ('v Context list \<times> 'e) \<times> panic option" where
  "buildHandler Respond s w r choice st =
     (case st of (pool, env) \<Rightarrow>
      case acquireContext w r (server_addr s) choice pool of (c, pool1) \<Rightarrow>
      case Router_Find (router s) (Path r) (Method r) (mw s) of
        Inl p \<Rightarrow> ((releaseContext c pool1, env), Some p)
      | Inr None \<Rightarrow>
          (case Context_NotFound Respond c ''not found'' env of
             (env1, Returned err) \<Rightarrow> ((releaseContext c pool1, env1), None)
           | (env1, Panicked p) \<Rightarrow> ((releaseContext c pool1, env1), Some p))
      | Inr (Some h) \<Rightarrow>
          (case h (c, env) of
             ((c1, env1), Returned None) \<Rightarrow> ((releaseContext c1 pool1, env1), None)
           | ((c1, env1), Returned (Some err)) \<Rightarrow>
               ((releaseContext c1 pool1,
                 logger_Error s ''handler error''
                   [''path'', Path r, ''method'', Method r, ''error'', err] env1), None)
           | ((c1, env1), Panicked p) \<Rightarrow> ((releaseContext c1 pool1, env1), Some p)))"

section \<open>Backing storage of slices\<close>

text \<open>
  A Go slice is a view \<open>(array, offset, length, capacity)\<close> of a backing array, and two
  slices may view the same array. The store is the list of all arrays allocated so far,
  an array's address its index; an allocation appends an array. A slice of capacity 0,
  as the nil slice is, views no element of any array.
\<close>

record slice =
  sarr :: nat
  soff :: nat
  slen :: nat
  scap :: nat

type_synonym 'a heap = "'a list list"

definition array_at :: "'a heap \<Rightarrow> nat \<Rightarrow> 'a list" where
  "array_at H a = (if a < length H then H ! a else [])"

text \<open>The slices a Go program can hold: within their capacity, and that within the array.\<close>

definition wf_slice :: "'a heap \<Rightarrow> slice \<Rightarrow> bool" where
  "wf_slice H s \<longleftrightarrow>
     slen s \<le> scap s \<and> (scap s = 0 \<or> (sarr s < length H \<and> soff s + scap s \<le> length (H ! sarr s)))"

definition contents :: "'a heap \<Rightarrow> slice \<Rightarrow> 'a list" where
  "contents H s = take (slen s) (drop (soff s) (array_at H (sarr s)))"

text \<open>\<^verbatim>\<open>make([]T, n)\<close>: a new array of \<open>n\<close> zero values and the slice of all of it.\<close>

definition heap_make :: "nat \<Rightarrow> 'a option heap \<Rightarrow> slice \<times> 'a option heap" where
  "heap_make n H = (\<lparr>sarr = length H, soff = 0, slen = n, scap = n\<rparr>, H @ [replicate n None])"

text \<open>
  \<^verbatim>\<open>copy(dst, src)\<close>: the first \<open>min (len dst) (len src)\<close> elements of \<open>src\<close>, read before
  any is written, overwrite those of \<open>dst\<close> in its array; the count is returned.
\<close>

definition heap_copy :: "slice \<Rightarrow> slice \<Rightarrow> 'a heap \<Rightarrow> nat \<times> 'a heap" where
  "heap_copy dst src H =
     (let n = min (slen dst) (slen src);
          vals = take n (contents H src);
          arr = array_at H (sarr dst)
      in (n, H[sarr dst := take (soff dst) arr @ vals @ drop (soff dst + n) arr]))"

text \<open>\<^verbatim>\<open>s[low:]\<close>, which panics when \<open>low\<close> exceeds the length.\<close>

definition slice_from :: "slice \<Rightarrow> nat \<Rightarrow> panic + slice" where
  "slice_from s low =
     (if low \<le> slen s
      then Inr \<lparr>sarr = sarr s, soff = soff s + low, slen = slen s - low, scap = scap s - low\<rparr>
      else Inl SliceBounds)"

text \<open>\<^verbatim>\<open>combineMW\<close> on the store: the slice it returns and the store it leaves.\<close>

definition combineMW_heap :: "slice \<Rightarrow> slice \<Rightarrow> 'a option heap \<Rightarrow> panic + slice \<times> 'a option heap" where
  "combineMW_heap a b H =
     (case heap_make (slen a + slen b) H of (combined, H1) \<Rightarrow>
     (case heap_copy combined a H1 of (n1, H2) \<Rightarrow>
     (case slice_from combined (slen a) of
        Inl p \<Rightarrow> Inl p
      | Inr rest \<Rightarrow>
          (case heap_copy rest b H2 of (n2, H3) \<Rightarrow> Inr (combined, H3)))))"

text \<open>
  What a caller can do to a slice afterwards. \<^verbatim>\<open>s[i] = v\<close> writes into the array, or
  panics out of range. \<^verbatim>\<open>append(s, v)\<close> writes into the spare capacity of the same
  array when there is some, and otherwise allocates an array for the longer slice; how
  much capacity beyond the new length it allocates is the runtime's choice, here \<open>extra\<close>.
\<close>

definition slice_store :: "slice \<Rightarrow> nat \<Rightarrow> 'a \<Rightarrow> 'a heap \<Rightarrow> panic + 'a heap" where
  "slice_store s i v H =
     (if i < slen s then Inr (H[sarr s := (array_at H (sarr s))[soff s + i := v]])
      else Inl IndexOutOfRange)"

definition slice_append :: "slice \<Rightarrow> 'a option \<Rightarrow> nat \<Rightarrow> 'a option heap \<Rightarrow> slice \<times> 'a option heap" where
  "slice_append s v extra H =
     (if slen s < scap s
      then (s\<lparr>slen := slen s + 1\<rparr>, H[sarr s := (array_at H (sarr s))[soff s + slen s := v]])
      else (\<lparr>sarr = length H, soff = 0, slen = slen s + 1, scap = slen s + 1 + extra\<rparr>,
            H @ [contents H s @ [v] @ replicate extra None]))"

text \<open>
  A caller's later program on its two slice variables \<open>a\<close> and \<open>b\<close>: any sequence of
  \<^verbatim>\<open>a[i] = v\<close>, \<^verbatim>\<open>b[i] = v\<close>, \<^verbatim>\<open>a = append(a, v)\<close> and \<^verbatim>\<open>b = append(b, v)\<close>. It
  stops at the first panic, in the state reached.
\<close>

datatype 'a mutation =
  StoreA nat "'a option" | StoreB nat "'a option" | AppendA "'a option" nat | AppendB "'a option" nat

fun mutate ::
  "'a mutation list \<Rightarrow> slice \<times> slice \<times> 'a option heap \<Rightarrow>
   (slice \<times> slice \<times> 'a option heap) \<times> panic option" where
  "mutate [] st = (st, None)"
| "mutate (StoreA i v # ms) (a, b, H) =
     (case slice_store a i v H of Inl p \<Rightarrow> ((a, b, H), Some p) | Inr H' \<Rightarrow> mutate ms (a, b, H'))"
| "mutate (StoreB i v # ms) (a, b, H) =
     (case slice_store b i v H of Inl p \<Rightarrow> ((a, b, H), Some p) | Inr H' \<Rightarrow> mutate ms (a, b, H'))"
| "mutate (AppendA v extra # ms) (a, b, H) =
     (case slice_append a v extra H of (a', H') \<Rightarrow> mutate ms (a', b, H'))"
| "mutate (AppendB v extra # ms) (a, b, H) =
     (case slice_append b v extra H of (b', H') \<Rightarrow> mutate ms (a, b', H'))"

definition heap_after :: "'a mutation list \<Rightarrow> slice \<Rightarrow> slice \<Rightarrow> 'a option heap \<Rightarrow> 'a option heap" where
  "heap_after ms a b H = snd (snd (fst (mutate ms (a, b, H))))"

text \<open>
  A slice that cannot reach the array at address \<open>c\<close>: it views nothing, or another array.
\<close>

definition apart :: "nat \<Rightarrow> slice \<Rightarrow> bool" where
  "apart c s \<longleftrightarrow> slen s \<le> scap s \<and> (scap s = 0 \<or> sarr s \<noteq> c)"

text \<open>
  \<^verbatim>\<open>Group.Group\<close> on the store: a Group whose decorators are a slice, and the Group of
  values it stands for in a given store.
\<close>

record stored_Group =
  sg_prefix :: string
  sg_middleware :: slice

definition Group_Group_heap ::
  "stored_Group \<Rightarrow> string \<Rightarrow> slice \<Rightarrow> 'a option heap \<Rightarrow> panic + stored_Group \<times> 'a option heap" where
  "Group_Group_heap g p mws H =
     (case combineMW_heap (sg_middleware g) mws H of
        Inl e \<Rightarrow> Inl e
      | Inr (c, H1) \<Rightarrow> Inr (\<lparr>sg_prefix = sg_prefix g @ p, sg_middleware = c\<rparr>, H1))"

definition group_of :: "'f MiddlewareFunc heap \<Rightarrow> stored_Group \<Rightarrow> 'f Group" where
  "group_of H g = \<lparr>group_prefix = sg_prefix g, group_middleware = contents H (sg_middleware g)\<rparr>"

text \<open>Sub-groups of sub-groups: one \<^verbatim>\<open>Group\<close> call per step, each on the result of the last.\<close>

fun Group_nest_heap ::
  "stored_Group \<Rightarrow> (string \<times> slice) list \<Rightarrow> 'a option heap \<Rightarrow> panic + stored_Group \<times> 'a option heap" where
  "Group_nest_heap g [] H = Inr (g, H)"
| "Group_nest_heap g ((p, mws) # steps) H =
     (case Group_Group_heap g p mws H of
        Inl e \<Rightarrow> Inl e
      | Inr (g', H') \<Rightarrow> Group_nest_heap g' steps H')"

definition Group_nest :: "'f Group \<Rightarrow> (string \<times> 'f MiddlewareFunc list) list \<Rightarrow> 'f Group" where
  "Group_nest g steps = fold (\<lambda>(p, mws) g. Group_Group g p mws) steps g"

section \<open>Vocabulary of the statements\<close>

text \<open>
  The route the three matching tiers of \<^verbatim>\<open>Find\<close> select, before any composition: the
  entry under the composite key, else the entry under the path, else the result of the
  prefix scan.
\<close>

definition selected_route :: "'f Router \<Rightarrow> string \<Rightarrow> string \<Rightarrow> 'f route option" where
  "selected_route rt path method =
     (case map_read (exact rt) (method @ '' '' @ path) of
        Some r \<Rightarrow> Some r
      | None \<Rightarrow>
     (case map_read (exact rt) path of
        Some r \<Rightarrow> Some r
      | None \<Rightarrow> prefix_scan (prefixes rt) path None 0))"








text \<open>
  The Go call \<^verbatim>\<open>d(e)\<close> of a decorator value on an argument expression: a panic of
  the argument is the panic of the call, and calling a nil decorator panics.
\<close>

definition apply_decorator ::
  "'f MiddlewareFunc \<Rightarrow> panic + 'f HandlerFunc \<Rightarrow> panic + 'f HandlerFunc" where
  "apply_decorator d e =
     (case e of
        Inl p \<Rightarrow> Inl p
      | Inr h \<Rightarrow> (case d of None \<Rightarrow> Inl NilDereference | Some f \<Rightarrow> Inr (f h)))"

text \<open>\<open>D0 (D1 (... (Dn-1 H)))\<close> for decorators that are not nil.\<close>

definition compose :: "('h \<Rightarrow> 'h) list \<Rightarrow> 'h \<Rightarrow> 'h" where
  "compose ds h = foldr (\<lambda>d k. d k) ds h"

section \<open>Example objects\<close>

text \<open>
  The router of the end-to-end example: \<^verbatim>\<open>Method("write", "/users", h1)\<close>,
  \<^verbatim>\<open>Handle("/users", h2)\<close> and \<^verbatim>\<open>HandlePrefix(catchall, h3)\<close> on a new Router, and a
  lookup on the result of the registrations.
\<close>

definition users_router :: "'f \<Rightarrow> 'f \<Rightarrow> 'f \<Rightarrow> string \<Rightarrow> panic + 'f Router" where
  "users_router h1 h2 h3 catchall =
     (case Router_Method ''write'' ''/users'' (Some h1) [] NewRouter of
        Inl e \<Rightarrow> Inl e
      | Inr rt1 \<Rightarrow>
          (case Router_Handle ''/users'' (Some h2) [] rt1 of
             Inl e \<Rightarrow> Inl e
           | Inr rt2 \<Rightarrow> Inr (Router_HandlePrefix catchall (Some h3) [] rt2)))"

definition find_on ::
  "panic + 'f Router \<Rightarrow> string \<Rightarrow> string \<Rightarrow> 'f MiddlewareFunc list \<Rightarrow> panic + 'f HandlerFunc" where
  "find_on reg path method g = (case reg of Inl e \<Rightarrow> Inl e | Inr rt \<Rightarrow> Router_Find rt path method g)"

text \<open>A router with one prefix route that has a decorator of its own, and a not-found handler.\<close>

definition static_router :: "((string list) handler) Router" where
  "static_router =
     Router_SetNotFound (Some (tracing_handler ''NF''))
       (Router_HandlePrefix ''/static/'' (Some (tracing_handler ''H'')) [tracing ''D''] NewRouter)"






text \<open>
  A store of one array \<open>[A, B]\<close>; a parent Group whose slice views \<open>[A]\<close> with one element
  of spare capacity, and a caller's slice that views \<open>[B]\<close>.
\<close>

definition one_array :: "(((string list) handler) MiddlewareFunc) heap" where
  "one_array = [[tracing ''A'', tracing ''B'']]"

definition api_group :: stored_Group where
  "api_group = \<lparr>sg_prefix = ''/api'', sg_middleware = \<lparr>sarr = 0, soff = 0, slen = 1, scap = 2\<rparr>\<rparr>"

definition caller_slice :: slice where
  "caller_slice = \<lparr>sarr = 0, soff = 1, slen = 1, scap = 1\<rparr>"

text \<open>
  A store of one array of numbers, a slice of its second and third elements with one
  element of spare capacity, and a slice of its first element with three.
\<close>

definition numbers :: "nat option heap" where
  "numbers = [[Some 1, Some 2, Some 3, Some 4]]"

definition seqA :: slice where
  "seqA = \<lparr>sarr = 0, soff = 1, slen = 2, scap = 3\<rparr>"

definition seqB :: slice where
  "seqB = \<lparr>sarr = 0, soff = 0, slen = 1, scap = 4\<rparr>"

section \<open>Composition order\<close>

lemma applyMiddleware_loop_Some:
  "n \<le> length ds \<Longrightarrow>
   applyMiddleware_loop (map Some ds) n h = Inr (foldr (\<lambda>d k. d k) (take n ds) h)"
proof (induction n arbitrary: h)
  case 0
  show ?case by simp
next
  case (Suc n)
  then have n: "n < length ds" by simp
  have "take (Suc n) ds = take n ds @ [ds ! n]"
    using n by (simp add: take_Suc_conv_app_nth)
  with Suc n show ?case by simp
qed

lemma applyMiddleware_Some:
  "applyMiddleware h (map Some ds) = Inr (foldr (\<lambda>d k. d k) ds h)"
  by (simp add: applyMiddleware_def applyMiddleware_loop_Some)

lemma foldr_apply_decorator_Inl: "foldr apply_decorator ds (Inl p) = Inl p"
  by (induction ds) (simp_all add: apply_decorator_def)

lemma applyMiddleware_loop_nested:
  "n \<le> length ds \<Longrightarrow>
   applyMiddleware_loop ds n h = foldr apply_decorator (take n ds) (Inr h)"
proof (induction n arbitrary: h)
  case 0
  show ?case by simp
next
  case (Suc n)
  then have n: "n < length ds" by simp
  have t: "take (Suc n) ds = take n ds @ [ds ! n]"
    using n by (simp add: take_Suc_conv_app_nth)
  show ?case
  proof (cases "ds ! n")
    case None
    then have "apply_decorator (ds ! n) (Inr h) = Inl NilDereference"
      by (simp add: apply_decorator_def)
    with None show ?thesis
      by (simp add: t foldr_apply_decorator_Inl)
  next
    case (Some d)
    then have "apply_decorator (ds ! n) (Inr h) = Inr (d h)"
      by (simp add: apply_decorator_def)
    with Some Suc n show ?thesis
      by (simp add: t)
  qed
qed

lemma applyMiddleware_nested: "applyMiddleware h ds = foldr apply_decorator ds (Inr h)"
  by (simp add: applyMiddleware_def applyMiddleware_loop_nested)

lemma applyMiddleware_Nil: "applyMiddleware h [] = Inr h"
  by (simp add: applyMiddleware_def)

lemma call_passthrough_chain:
  "call (foldr (\<lambda>d k. d k) (map (\<lambda>(b, a). passthrough_fn b a) bas) (Some H)) s =
     (case H (fold (\<lambda>(b, a). b) bas s) of
        (s1, Returned err) \<Rightarrow> (foldr (\<lambda>(b, a). a) bas s1, Returned err)
      | (s1, Panicked p) \<Rightarrow> (s1, Panicked p))"
proof (induction bas arbitrary: s)
  case Nil
  show ?case by (simp add: call_def split: prod.splits outcome.splits)
next
  case (Cons x bas)
  obtain b a where x: "x = (b, a)" by (cases x)
  have "call (passthrough_fn b a k) s =
          (case call k (b s) of
             (s1, Returned err) \<Rightarrow> (a s1, Returned err)
           | (s1, Panicked p) \<Rightarrow> (s1, Panicked p))" for k
    by (simp add: call_def passthrough_fn_def)
  then show ?case
    unfolding x by (simp add: Cons.IH split: prod.splits outcome.splits)
qed

lemma run_passthrough:
  "run (applyMiddleware (Some H) (map (\<lambda>(b, a). passthrough b a) bas)) s =
     (case H (fold (\<lambda>(b, a). b) bas s) of
        (s1, Returned err) \<Rightarrow> (foldr (\<lambda>(b, a). a) bas s1, Returned err)
      | (s1, Panicked p) \<Rightarrow> (s1, Panicked p))"
proof -
  have m: "map (\<lambda>(b, a). passthrough b a) bas =
        map Some (map (\<lambda>(b, a). passthrough_fn b a) bas)"
    by (simp add: passthrough_def case_prod_unfold)
  have "applyMiddleware (Some H) (map (\<lambda>(b, a). passthrough b a) bas) =
        Inr (foldr (\<lambda>d k. d k) (map (\<lambda>(b, a). passthrough_fn b a) bas) (Some H))"
    unfolding m by (rule applyMiddleware_Some)
  then show ?thesis
    by (simp add: run_def call_passthrough_chain)
qed

lemma applyMiddleware_shortcircuit:
  "applyMiddleware H (shortcircuit own # map Some ds) = Inr (Some own)"
proof -
  have "shortcircuit own # map Some ds = map Some ((\<lambda>next. Some own) # ds)"
    by (simp add: shortcircuit_def)
  then show ?thesis
    by (simp only: applyMiddleware_Some) simp
qed

lemma tracing_chain:
  "run (applyMiddleware (Some (tracing_handler ''H'')) [tracing ''A'', tracing ''B'', tracing ''C'']) tr =
     (tr @ [''A-before'', ''B-before'', ''C-before'', ''H'', ''C-after'', ''B-after'', ''A-after''],
      Returned None)"
proof -
  have "[tracing ''A'', tracing ''B'', tracing ''C''] =
        map (\<lambda>(b, a). passthrough b a)
          [(emit ''A-before'', emit ''A-after''), (emit ''B-before'', emit ''B-after''),
           (emit ''C-before'', emit ''C-after'')]"
    by (simp add: tracing_def)
  then show ?thesis
    by (simp only: run_passthrough) (simp add: tracing_handler_def emit_def)
qed

lemma tracing_shortcircuit:
  "run (applyMiddleware (Some (tracing_handler ''H''))
         [shortcircuit (tracing_handler ''A''), tracing ''B'', tracing ''C'']) tr =
     (tr @ [''A''], Returned None)"
proof -
  have "[tracing ''B'', tracing ''C''] =
        map Some [passthrough_fn (emit ''B-before'') (emit ''B-after''),
                  passthrough_fn (emit ''C-before'') (emit ''C-after'')]"
    by (simp add: tracing_def passthrough_def)
  then have "applyMiddleware (Some (tracing_handler ''H''))
         [shortcircuit (tracing_handler ''A''), tracing ''B'', tracing ''C''] =
        Inr (Some (tracing_handler ''A''))"
    by (simp only: applyMiddleware_shortcircuit)
  then show ?thesis
    by (simp add: run_def call_def tracing_handler_def emit_def)
qed

text \<open>
  Claim C3. For every handler \<open>H\<close> and every sequence of decorators \<open>[D0, ..., Dn-1]\<close>,
  \<open>applyMiddleware\<close> returns \<open>D0 (D1 (... (Dn-1 H)))\<close>: \<open>D0\<close> outermost, \<open>Dn-1\<close> next to
  \<open>H\<close>. This holds of the nested Go calls for every sequence, a nil entry making both
  panic, and of the nested function applications when no entry is nil. When the first decorator never invokes its inner handler, the composition is that
  decorator's own handler, whatever the other decorators and \<open>H\<close> are, so none of them
  runs: of the chain \<open>[A, B, C]\<close> around \<open>H\<close> only \<open>A\<close> leaves an event. When every
  decorator does its work before, calls its inner handler once and does its work after, the
  works before run first to last, then \<open>H\<close>, then the works after last to first: the chain
  \<open>[A, B, C]\<close> around \<open>H\<close> leaves the events A-before, B-before, C-before, H, C-after,
  B-after, A-after.
\<close>

theorem C3_applyMiddleware_order:
  "applyMiddleware H mws = foldr apply_decorator mws (Inr H)
   \<and> applyMiddleware H (map Some ds) = Inr (foldr (\<lambda>d k. d k) ds H)
   \<and> applyMiddleware H [Some D0, Some D1, Some D2] = Inr (D0 (D1 (D2 H)))
   \<and> applyMiddleware H (shortcircuit own # map Some ds) = Inr (Some own)
   \<and> run (applyMiddleware (Some (tracing_handler ''H''))
           [shortcircuit (tracing_handler ''A''), tracing ''B'', tracing ''C'']) tr =
       (tr @ [''A''], Returned None)
   \<and> run (applyMiddleware (Some G) (map (\<lambda>(b, a). passthrough b a) bas)) s =
       (case G (fold (\<lambda>(b, a). b) bas s) of
          (s1, Returned err) \<Rightarrow> (foldr (\<lambda>(b, a). a) bas s1, Returned err)
        | (s1, Panicked p) \<Rightarrow> (s1, Panicked p))
   \<and> run (applyMiddleware (Some (tracing_handler ''H''))
           [tracing ''A'', tracing ''B'', tracing ''C'']) tr =
       (tr @ [''A-before'', ''B-before'', ''C-before'', ''H'', ''C-after'', ''B-after'',
              ''A-after''], Returned None)"
proof -
  have "applyMiddleware H [Some D0, Some D1, Some D2] = Inr (D0 (D1 (D2 H)))"
    using applyMiddleware_Some[of H "[D0, D1, D2]"] by simp
  moreover have "applyMiddleware H mws = foldr apply_decorator mws (Inr H)"
    by (rule applyMiddleware_nested)
  ultimately show ?thesis
    by (simp only: applyMiddleware_Some applyMiddleware_shortcircuit tracing_shortcircuit
        run_passthrough tracing_chain simp_thms)
qed

section \<open>Values of combined sequences\<close>

lemma combineMW_append: "combineMW a b = a @ b"
  by (simp add: combineMW_def make_slice_def copy_slice_def Let_def min_def)

lemma HasPrefix_iff: "HasPrefix s p \<longleftrightarrow> (\<exists>t. s = p @ t)"
proof
  assume "HasPrefix s p"
  then have "s = p @ drop (length p) s"
    by (metis HasPrefix_def append_take_drop_id)
  then show "\<exists>t. s = p @ t" ..
next
  assume "\<exists>t. s = p @ t"
  then show "HasPrefix s p" by (auto simp: HasPrefix_def)
qed

section \<open>Route resolution\<close>

lemma Router_Find_selected:
  "Router_Find rt path method g =
     (case selected_route rt path method of
        Some r \<Rightarrow> applyMiddleware (handler r) (g @ middleware r)
      | None \<Rightarrow> (case notFound rt of
                   Some nf \<Rightarrow> applyMiddleware (Some nf) g
                 | None \<Rightarrow> Inr None))"
  by (simp add: Router_Find_def selected_route_def combineMW_append split: option.splits)

text \<open>
  Claim C6. Whichever of the three matching tiers selects a route, \<^verbatim>\<open>Find\<close> returns the
  composition of the route's handler with the global decorators followed by the route's
  own: for decorators that are not nil, \<open>G0 (... (Gm-1 (D0 (... (Dn-1 h)))))\<close>. When no
  tier selects a route and a not-found handler is set, it is composed with the global
  decorators only. The composition is a function of the arguments of this call of
  \<^verbatim>\<open>Find\<close>: the Router keeps no composed handler, so each call composes again with the
  global decorators it is given.
\<close>

theorem C6_Find_composition:
  "Router_Find rt path method g =
     (case selected_route rt path method of
        Some r \<Rightarrow> applyMiddleware (handler r) (g @ middleware r)
      | None \<Rightarrow> (case notFound rt of
                   Some nf \<Rightarrow> applyMiddleware (Some nf) g
                 | None \<Rightarrow> Inr None))
   \<and> (selected_route rt path method = Some r \<and> middleware r = map Some ds \<longrightarrow>
        Router_Find rt path method (map Some gs) = Inr (compose (gs @ ds) (handler r)))
   \<and> (selected_route rt path method = None \<and> notFound rt = Some nf \<longrightarrow>
        Router_Find rt path method (map Some gs) = Inr (compose gs (Some nf)))"
proof -
  have "applyMiddleware h (map Some gs @ map Some ds) = Inr (compose (gs @ ds) h)" for h :: "'a option"
    using applyMiddleware_Some[of h "gs @ ds"] by (simp add: compose_def)
  moreover have "applyMiddleware h (map Some gs) = Inr (compose gs h)" for h :: "'a option"
    by (simp add: applyMiddleware_Some compose_def)
  ultimately show ?thesis
    by (simp add: Router_Find_selected)
qed

section \<open>The Context store and the pool\<close>

lemma Context_Get_Set:
  "Context_Get (Context_Set k v c) key = (if key = k then (v, True) else Context_Get c key)"
  by (simp add: Context_Get_def Context_Set_def split: option.splits)

lemma Context_Get_fold_Set:
  "Context_Get (fold (\<lambda>(k, v). Context_Set k v) ops c) key =
     (case map_of (rev ops) key of Some v \<Rightarrow> (v, True) | None \<Rightarrow> Context_Get c key)"
proof (induction ops rule: rev_induct)
  case Nil
  show ?case by simp
next
  case (snoc x xs)
  obtain k v where x: "x = (k, v)" by (cases x)
  show ?case
    unfolding x using snoc by (simp add: Context_Get_Set)
qed

lemma acquireContext_fields:
  "fst (acquireContext w r s choice pool) =
     \<lparr>Response = Some w, Request = Some r, server = Some s, store = None\<rparr>"
  by (cases "pool_Get choice pool :: 'a Context \<times> 'a Context list")
     (simp add: acquireContext_def)

lemma acquireContext_pool: "snd (acquireContext w r s choice pool) = snd (pool_Get choice pool)"
  by (cases "pool_Get choice pool") (simp add: acquireContext_def)

lemma releaseContext_cleared: "releaseContext c pool = new_Context # pool"
  by (simp add: releaseContext_def pool_Put_def new_Context_def)

lemma Context_Get_acquired: "Context_Get (fst (acquireContext w r s choice pool)) key = (None, False)"
  by (simp add: acquireContext_fields Context_Get_def)

lemma buildHandler_releases:
  "fst (fst (buildHandler Respond s w r choice (pool, env))) = new_Context # snd (pool_Get choice pool)"
proof -
  obtain c pool1 where a: "acquireContext w r (server_addr s) choice pool = (c, pool1)"
    by (cases "acquireContext w r (server_addr s) choice pool")
  then have "pool1 = snd (pool_Get choice pool)"
    using acquireContext_pool[of w r "server_addr s" choice pool] by simp
  with a show ?thesis
    by (simp add: buildHandler_def releaseContext_cleared
        split: sum.splits option.splits prod.splits outcome.splits)
qed

text \<open>
  Claim C4. A Context acquired for a request has exactly that request's handles and a nil
  store, whatever the pool held. After any writes to its store, release puts it back into
  the pool with all four fields nil, and the next acquisition, whichever pooled object it
  takes (the one just released is \<open>Some 0\<close>) or allocates, again has exactly the new
  request's handles and a store in which no key is found. The Dispatcher releases on every
  way out: after a dispatch the pool is the one left by the acquisition with a cleared
  Context in front.
\<close>

theorem C4_context_reset:
  "(case acquireContext w1 r1 s1 ch1 pool of (c1, pool1) \<Rightarrow>
      c1 = \<lparr>Response = Some w1, Request = Some r1, server = Some s1, store = None\<rparr>
      \<and> (let c2 = fold (\<lambda>(k, v). Context_Set k v) ops c1;
              pool2 = releaseContext c2 pool1
          in pool2 = \<lparr>Response = None, Request = None, server = None, store = None\<rparr> # pool1
             \<and> pool_Get (Some 0) pool2 = (new_Context, pool1)
             \<and> (case acquireContext w2 r2 s2 ch2 pool2 of (c3, pool3) \<Rightarrow>
                   c3 = \<lparr>Response = Some w2, Request = Some r2, server = Some s2, store = None\<rparr>
                   \<and> (\<forall>key. Context_Get c3 key = (None, False)))))
   \<and> fst (fst (buildHandler Respond s w r ch (pool, env))) = new_Context # snd (pool_Get ch pool)"
proof -
  have "pool_Get (Some 0) (new_Context # pool1) = (new_Context, pool1)"
    for pool1 :: "'a Context list"
    by (simp add: pool_Get_def)
  then show ?thesis
    by (simp add: case_prod_unfold Let_def acquireContext_fields releaseContext_cleared
        buildHandler_releases Context_Get_def)
      (simp add: new_Context_def)
qed

text \<open>
  Claim C9. On a Context bound by acquisition and then written by any sequence of
  \<^verbatim>\<open>Set\<close> calls, \<^verbatim>\<open>Get\<close> returns the value of the last \<^verbatim>\<open>Set\<close> of the key with
  \<open>True\<close> when the key has been set, and nil with \<open>False\<close> otherwise; it has no panic
  among its results. \<^verbatim>\<open>MustGet\<close> returns that same value when the key has been set and
  panics, with the message naming the key, exactly when it has not.
\<close>

theorem C9_Get_MustGet:
  "(let c = fold (\<lambda>(k, v). Context_Set k v) ops (fst (acquireContext w r s ch pool)) in
      Context_Get c key =
        (case map_of (rev ops) key of Some v \<Rightarrow> (v, True) | None \<Rightarrow> (None, False))
      \<and> Context_MustGet c key =
        (case map_of (rev ops) key of
           Some v \<Rightarrow> Inr v
         | None \<Rightarrow> Inl (PanicMsg (''velocity: context key not found: '' @ key)))
      \<and> (snd (Context_Get c key) \<longleftrightarrow> key \<in> fst ` set ops)
      \<and> ((\<exists>p. Context_MustGet c key = Inl p) \<longleftrightarrow> key \<notin> fst ` set ops))"
proof -
  define c where "c = fold (\<lambda>(k, v). Context_Set k v) ops (fst (acquireContext w r s ch pool))"
  have g: "Context_Get c key =
        (case map_of (rev ops) key of Some v \<Rightarrow> (v, True) | None \<Rightarrow> (None, False))"
    by (simp add: c_def Context_Get_fold_Set Context_Get_acquired cong: option.case_cong)
  have d: "map_of (rev ops) key = None \<longleftrightarrow> key \<notin> fst ` set ops"
    by (simp add: map_of_eq_None_iff)
  have m: "Context_MustGet c key =
        (case map_of (rev ops) key of
           Some v \<Rightarrow> Inr v
         | None \<Rightarrow> Inl (PanicMsg (''velocity: context key not found: '' @ key)))"
    by (simp add: Context_MustGet_def g split: option.splits)
  have s: "snd (Context_Get c key) \<longleftrightarrow> key \<in> fst ` set ops"
    using d by (cases "map_of (rev ops) key") (simp_all add: g)
  have e: "(\<exists>p. Context_MustGet c key = Inl p) \<longleftrightarrow> key \<notin> fst ` set ops"
    using d by (cases "map_of (rev ops) key") (simp_all add: m)
  show ?thesis
    unfolding Let_def c_def[symmetric] using g m s e by simp
qed

section \<open>The prefix scan\<close>

lemma prefix_scan_no_match:
  "\<forall>pr \<in> set prs. HasPrefix path (prefix pr) \<longrightarrow> length (prefix pr) \<le> n \<Longrightarrow>
   prefix_scan prs path best n = best"
  by (induction prs arbitrary: best n) auto

lemma prefix_scan_result:
  "prefix_scan prs path best n = res \<Longrightarrow>
     (res = best \<and> (\<forall>pr \<in> set prs. HasPrefix path (prefix pr) \<longrightarrow> length (prefix pr) \<le> n))
   \<or> (\<exists>xs pr ys. prs = xs @ pr # ys \<and> res = Some (route pr) \<and> HasPrefix path (prefix pr)
         \<and> n < length (prefix pr)
         \<and> (\<forall>q \<in> set xs. HasPrefix path (prefix q) \<longrightarrow> length (prefix q) < length (prefix pr))
         \<and> (\<forall>q \<in> set ys. HasPrefix path (prefix q) \<longrightarrow> length (prefix q) \<le> length (prefix pr)))"
proof (induction prs arbitrary: best n)
  case Nil
  then show ?case by simp
next
  case (Cons p prs)
  show ?case
  proof (cases "HasPrefix path (prefix p) \<and> n < length (prefix p)")
    case True
    then have "prefix_scan prs path (Some (route p)) (length (prefix p)) = res"
      using Cons.prems by simp
    from Cons.IH[OF this] show ?thesis
    proof
      assume a: "res = Some (route p) \<and>
        (\<forall>pr \<in> set prs. HasPrefix path (prefix pr) \<longrightarrow> length (prefix pr) \<le> length (prefix p))"
      have "p # prs = [] @ p # prs" by simp
      with a True show ?thesis by (intro disjI2 exI conjI) auto
    next
      assume "\<exists>xs pr ys. prs = xs @ pr # ys \<and> res = Some (route pr) \<and> HasPrefix path (prefix pr)
         \<and> length (prefix p) < length (prefix pr)
         \<and> (\<forall>q \<in> set xs. HasPrefix path (prefix q) \<longrightarrow> length (prefix q) < length (prefix pr))
         \<and> (\<forall>q \<in> set ys. HasPrefix path (prefix q) \<longrightarrow> length (prefix q) \<le> length (prefix pr))"
      then obtain xs q ys where d: "prs = xs @ q # ys" "res = Some (route q)"
        "HasPrefix path (prefix q)" "length (prefix p) < length (prefix q)"
        "\<forall>x \<in> set xs. HasPrefix path (prefix x) \<longrightarrow> length (prefix x) < length (prefix q)"
        "\<forall>y \<in> set ys. HasPrefix path (prefix y) \<longrightarrow> length (prefix y) \<le> length (prefix q)"
        by blast
      have "p # prs = (p # xs) @ q # ys" using d(1) by simp
      moreover have "n < length (prefix q)" using True d(4) by simp
      moreover have "\<forall>x \<in> set (p # xs). HasPrefix path (prefix x) \<longrightarrow> length (prefix x) < length (prefix q)"
        using d(4,5) by simp
      ultimately show ?thesis using d(2,3,6) by blast
    qed
  next
    case False
    then have "prefix_scan prs path best n = res"
      using Cons.prems by auto
    from Cons.IH[OF this] show ?thesis
    proof
      assume "res = best \<and> (\<forall>pr \<in> set prs. HasPrefix path (prefix pr) \<longrightarrow> length (prefix pr) \<le> n)"
      with False show ?thesis by auto
    next
      assume "\<exists>xs pr ys. prs = xs @ pr # ys \<and> res = Some (route pr) \<and> HasPrefix path (prefix pr)
         \<and> n < length (prefix pr)
         \<and> (\<forall>q \<in> set xs. HasPrefix path (prefix q) \<longrightarrow> length (prefix q) < length (prefix pr))
         \<and> (\<forall>q \<in> set ys. HasPrefix path (prefix q) \<longrightarrow> length (prefix q) \<le> length (prefix pr))"
      then obtain xs q ys where d: "prs = xs @ q # ys" "res = Some (route q)"
        "HasPrefix path (prefix q)" "n < length (prefix q)"
        "\<forall>x \<in> set xs. HasPrefix path (prefix x) \<longrightarrow> length (prefix x) < length (prefix q)"
        "\<forall>y \<in> set ys. HasPrefix path (prefix y) \<longrightarrow> length (prefix y) \<le> length (prefix q)"
        by blast
      have "p # prs = (p # xs) @ q # ys" using d(1) by simp
      moreover have "\<forall>x \<in> set (p # xs). HasPrefix path (prefix x) \<longrightarrow> length (prefix x) < length (prefix q)"
        using d(4,5) False by auto
      ultimately show ?thesis using d(2,3,4,6) by blast
    qed
  qed
qed

text \<open>
  What the scan of \<^verbatim>\<open>Find\<close> selects: nothing exactly when every registered prefix of
  the path is empty, and otherwise the first of the longest non-empty registered prefixes
  of the path.
\<close>

lemma prefix_scan_None_iff:
  "prefix_scan prs path None 0 = None \<longleftrightarrow>
     (\<forall>pr \<in> set prs. HasPrefix path (prefix pr) \<longrightarrow> prefix pr = [])"
proof
  assume "prefix_scan prs path None 0 = None"
  from prefix_scan_result[OF this]
  show "\<forall>pr \<in> set prs. HasPrefix path (prefix pr) \<longrightarrow> prefix pr = []" by auto
next
  assume "\<forall>pr \<in> set prs. HasPrefix path (prefix pr) \<longrightarrow> prefix pr = []"
  then show "prefix_scan prs path None 0 = None"
    by (intro prefix_scan_no_match) auto
qed

lemma prefix_scan_Some:
  assumes "prefix_scan prs path None 0 = Some r"
  shows "\<exists>xs pr ys. prs = xs @ pr # ys \<and> r = route pr \<and> HasPrefix path (prefix pr)
         \<and> prefix pr \<noteq> []
         \<and> (\<forall>q \<in> set xs. HasPrefix path (prefix q) \<longrightarrow> length (prefix q) < length (prefix pr))
         \<and> (\<forall>q \<in> set ys. HasPrefix path (prefix q) \<longrightarrow> length (prefix q) \<le> length (prefix pr))"
  using prefix_scan_result[OF assms] by fastforce

section \<open>The tiers of Find\<close>

lemma Find_composite:
  "map_read (exact rt) (method @ '' '' @ path) = Some r \<Longrightarrow>
   Router_Find rt path method g = applyMiddleware (handler r) (g @ middleware r)"
  by (simp add: Router_Find_def combineMW_append)

lemma Find_path_only:
  "map_read (exact rt) (method @ '' '' @ path) = None \<Longrightarrow> map_read (exact rt) path = Some r \<Longrightarrow>
   Router_Find rt path method g = applyMiddleware (handler r) (g @ middleware r)"
  by (simp add: Router_Find_def combineMW_append)

lemma Find_prefix:
  "map_read (exact rt) (method @ '' '' @ path) = None \<Longrightarrow> map_read (exact rt) path = None \<Longrightarrow>
   prefix_scan (prefixes rt) path None 0 = Some r \<Longrightarrow>
   Router_Find rt path method g = applyMiddleware (handler r) (g @ middleware r)"
  by (simp add: Router_Find_def combineMW_append)




section \<open>One exact table\<close>

lemma Router_Method_Handle:
  "Router_Method m p h mws rt = Router_Handle (m @ '' '' @ p) h mws rt"
  by (simp add: Router_Method_def Router_Handle_def)

lemma Router_Handle_twice:
  "(case Router_Handle k h mws rt of Inl e \<Rightarrow> Inl e | Inr rt1 \<Rightarrow> Router_Handle k h' mws' rt1) =
   Router_Handle k h' mws' rt"
  by (cases "exact rt") (simp_all add: Router_Handle_def map_write_def)

lemma Router_Handle_read:
  "Router_Handle k h mws rt = Inr rt1 \<Longrightarrow>
   map_read (exact rt1) k' =
     (if k' = k then Some \<lparr>handler = h, middleware = mws\<rparr> else map_read (exact rt) k')"
  by (cases "exact rt") (auto simp: Router_Handle_def map_write_def map_read_def)

text \<open>
  Claim C10. \<^verbatim>\<open>Method(m, p, h)\<close> is the same table write as
  \<^verbatim>\<open>Handle(m + " " + p, h)\<close>, so of a \<^verbatim>\<open>Method\<close> and a \<^verbatim>\<open>Handle\<close> on that key the
  later one alone decides the entry. Both exact steps of \<^verbatim>\<open>Find\<close> read that one table: a
  path-only route registered under \<open>m + " " + p\<close> answers the request for path \<open>p\<close> with
  method \<open>m\<close> at the composite-key step, and a method-specific route for \<open>(m, p)\<close> answers a
  request whose path is \<open>m + " " + p\<close> at the path-only step when the composite key of that
  request is not registered.
\<close>

theorem C10_one_exact_table:
  "Router_Method m p h mws rt = Router_Handle (m @ '' '' @ p) h mws rt
   \<and> (case Router_Method m p h mws rt of
         Inl e \<Rightarrow> Inl e
       | Inr rt1 \<Rightarrow> Router_Handle (m @ '' '' @ p) h' mws' rt1) = Router_Handle (m @ '' '' @ p) h' mws' rt
   \<and> (case Router_Handle (m @ '' '' @ p) h' mws' rt of
         Inl e \<Rightarrow> Inl e
       | Inr rt1 \<Rightarrow> Router_Method m p h mws rt1) = Router_Method m p h mws rt
   \<and> (Router_Handle (m @ '' '' @ p) h mws rt = Inr rt1 \<longrightarrow>
        map_read (exact rt1) (m @ '' '' @ p) = Some \<lparr>handler = h, middleware = mws\<rparr>
        \<and> Router_Find rt1 p m g = applyMiddleware h (g @ mws))
   \<and> (Router_Method m p h mws rt = Inr rt2
        \<and> map_read (exact rt) (m' @ '' '' @ m @ '' '' @ p) = None \<longrightarrow>
        Router_Find rt2 (m @ '' '' @ p) m' g = applyMiddleware h (g @ mws))"
proof -
  have 1: "Router_Method m p h mws rt = Router_Handle (m @ '' '' @ p) h mws rt"
    by (rule Router_Method_Handle)
  have 4: "map_read (exact rt1) (m @ '' '' @ p) = Some \<lparr>handler = h, middleware = mws\<rparr>
        \<and> Router_Find rt1 p m g = applyMiddleware h (g @ mws)"
    if "Router_Handle (m @ '' '' @ p) h mws rt = Inr rt1"
    using Router_Handle_read[OF that, of "m @ '' '' @ p"]
    by (simp add: Find_composite)
  have 5: "Router_Find rt2 (m @ '' '' @ p) m' g = applyMiddleware h (g @ mws)"
    if a: "Router_Method m p h mws rt = Inr rt2"
      and b: "map_read (exact rt) (m' @ '' '' @ m @ '' '' @ p) = None"
  proof -
    have h: "Router_Handle (m @ '' '' @ p) h mws rt = Inr rt2" using a 1 by simp
    have "length (m' @ '' '' @ m @ '' '' @ p) \<noteq> length (m @ '' '' @ p)" by simp
    then have ne: "m' @ '' '' @ m @ '' '' @ p \<noteq> m @ '' '' @ p" by metis
    have "map_read (exact rt2) (m' @ '' '' @ m @ '' '' @ p) = None"
      using Router_Handle_read[OF h, of "m' @ '' '' @ m @ '' '' @ p"] ne b by simp
    moreover have "map_read (exact rt2) (m @ '' '' @ p) = Some \<lparr>handler = h, middleware = mws\<rparr>"
      using Router_Handle_read[OF h, of "m @ '' '' @ p"] by simp
    ultimately show ?thesis
      using Find_path_only[of rt2 m' "m @ '' '' @ p" "\<lparr>handler = h, middleware = mws\<rparr>" g] by simp
  qed
  have 2: "(case Router_Method m p h mws rt of
         Inl e \<Rightarrow> Inl e
       | Inr rt1 \<Rightarrow> Router_Handle (m @ '' '' @ p) h' mws' rt1) = Router_Handle (m @ '' '' @ p) h' mws' rt"
    unfolding Router_Method_Handle by (rule Router_Handle_twice)
  have 3: "(case Router_Handle (m @ '' '' @ p) h' mws' rt of
         Inl e \<Rightarrow> Inl e
       | Inr rt1 \<Rightarrow> Router_Method m p h mws rt1) = Router_Method m p h mws rt"
    unfolding Router_Method_Handle by (rule Router_Handle_twice)
  show ?thesis
    using 1 2 3 4 5 by blast
qed


section \<open>Registrations and the keys they write\<close>





section \<open>Combined sequences in the store\<close>

lemma contents_old:
  "wf_slice H s \<Longrightarrow> contents (H @ ext) s = contents H s"
  by (auto simp: contents_def wf_slice_def array_at_def nth_append)

lemma length_contents: "wf_slice H s \<Longrightarrow> length (contents H s) = slen s"
  by (auto simp: contents_def wf_slice_def array_at_def)

lemma combineMW_heap_result:
  assumes "wf_slice H a" "wf_slice H b"
  shows "combineMW_heap a b H =
         Inr (\<lparr>sarr = length H, soff = 0, slen = slen a + slen b, scap = slen a + slen b\<rparr>,
              H @ [contents H a @ contents H b])"
proof -
  have la: "length (contents H a) = slen a" and lb: "length (contents H b) = slen b"
    using assms by (simp_all add: length_contents)
  have ca: "contents (H @ ext) a = contents H a" for ext
    using assms(1) by (rule contents_old)
  have cb: "contents (H @ ext) b = contents H b" for ext
    using assms(2) by (rule contents_old)
  have cb2: "contents ((H @ [xs])[length H := ys]) b = contents H b" for xs ys
    using cb[of "[ys]"] by (simp add: list_update_append)
  have tb: "take (slen b) (contents H b) = contents H b"
    using lb by simp
  have eb: "slen b = 0 \<Longrightarrow> contents H b = []"
    using lb by simp
  show ?thesis
    by (auto simp add: combineMW_heap_def heap_make_def heap_copy_def slice_from_def Let_def
        ca cb cb2 array_at_def la lb tb eb list_update_append min_def)
qed

lemma wf_old: "wf_slice H s \<Longrightarrow> wf_slice (H @ ext) s"
  by (auto simp: wf_slice_def nth_append)

lemma slice_store_frame:
  assumes "apart c s" "slice_store s i v H = Inr H'"
  shows "array_at H' c = array_at H c \<and> length H' = length H"
  using assms by (auto simp: apart_def slice_store_def array_at_def split: if_splits)

lemma slice_append_frame:
  assumes "apart c s" "c < length H" "slice_append s v extra H = (s', H')"
  shows "array_at H' c = array_at H c \<and> length H \<le> length H' \<and> apart c s'"
  using assms by (auto simp: apart_def slice_append_def array_at_def nth_append split: if_splits)

lemma mutate_frame:
  "apart c a \<Longrightarrow> apart c b \<Longrightarrow> c < length H \<Longrightarrow>
   array_at (heap_after ms a b H) c = array_at H c"
proof (induction ms arbitrary: a b H)
  case Nil
  show ?case by (simp add: heap_after_def)
next
  case (Cons m ms)
  show ?case
  proof (cases m)
    case (StoreA i v)
    show ?thesis
    proof (cases "slice_store a i v H")
      case (Inl p)
      then show ?thesis by (simp add: StoreA heap_after_def)
    next
      case (Inr H')
      have f: "array_at H' c = array_at H c \<and> length H' = length H"
        using Cons.prems(1) Inr by (rule slice_store_frame)
      then have "array_at (heap_after ms a b H') c = array_at H' c"
        using Cons.prems by (intro Cons.IH) simp_all
      then show ?thesis using f by (simp add: StoreA Inr heap_after_def)
    qed
  next
    case (StoreB i v)
    show ?thesis
    proof (cases "slice_store b i v H")
      case (Inl p)
      then show ?thesis by (simp add: StoreB heap_after_def)
    next
      case (Inr H')
      have f: "array_at H' c = array_at H c \<and> length H' = length H"
        using Cons.prems(2) Inr by (rule slice_store_frame)
      then have "array_at (heap_after ms a b H') c = array_at H' c"
        using Cons.prems by (intro Cons.IH) simp_all
      then show ?thesis using f by (simp add: StoreB Inr heap_after_def)
    qed
  next
    case (AppendA v extra)
    obtain a' H' where r: "slice_append a v extra H = (a', H')"
      by (cases "slice_append a v extra H")
    have f: "array_at H' c = array_at H c \<and> length H \<le> length H' \<and> apart c a'"
      using Cons.prems(1,3) r by (rule slice_append_frame)
    then have "array_at (heap_after ms a' b H') c = array_at H' c"
      using Cons.prems by (intro Cons.IH) simp_all
    then show ?thesis using f by (simp add: AppendA r heap_after_def)
  next
    case (AppendB v extra)
    obtain b' H' where r: "slice_append b v extra H = (b', H')"
      by (cases "slice_append b v extra H")
    have f: "array_at H' c = array_at H c \<and> length H \<le> length H' \<and> apart c b'"
      using Cons.prems(2,3) r by (rule slice_append_frame)
    then have "array_at (heap_after ms a b' H') c = array_at H' c"
      using Cons.prems by (intro Cons.IH) simp_all
    then show ?thesis using f by (simp add: AppendB r heap_after_def)
  qed
qed


lemma wf_apart: "wf_slice H s \<Longrightarrow> apart (length H) s"
  by (auto simp: wf_slice_def apart_def)

lemma contents_frame: "array_at H' (sarr c) = array_at H (sarr c) \<Longrightarrow> contents H' c = contents H c"
  by (simp add: contents_def)

text \<open>
  Claim C8. For slices \<open>a\<close> and \<open>b\<close> of a store, \<^verbatim>\<open>combineMW\<close> does not panic and returns
  a slice whose elements are those of \<open>a\<close> followed by those of \<open>b\<close> (the value of
  \<open>combineMW\<close> on lists), in an array allocated by this call: its address is beyond every
  array of the store it was given, which the call leaves as it was. Whatever the caller
  then does to \<open>a\<close> and \<open>b\<close>, storing into them and appending to them in any order, the
  elements of the combined slice stay the same. The combined slice has no spare capacity,
  so appending to it changes neither input.
\<close>

theorem C8_combineMW_fresh_storage:
  assumes "wf_slice H a" and "wf_slice H b"
  shows "case combineMW_heap a b H of
           Inl p \<Rightarrow> False
         | Inr (c, H1) \<Rightarrow>
             contents H1 c = contents H a @ contents H b
           \<and> contents H1 c = combineMW (contents H a) (contents H b)
           \<and> sarr c = length H \<and> soff c = 0 \<and> scap c = slen c
           \<and> H1 = H @ [contents H a @ contents H b]
           \<and> (\<forall>ms. contents (heap_after ms a b H1) c = contents H1 c)
           \<and> (\<forall>v extra. case slice_append c v extra H1 of
                 (c', H2) \<Rightarrow> contents H2 a = contents H a \<and> contents H2 b = contents H b
                            \<and> contents H2 c = contents H1 c)"
proof -
  define c where "c = \<lparr>sarr = length H, soff = 0, slen = slen a + slen b, scap = slen a + slen b\<rparr>"
  define H1 where "H1 = H @ [contents H a @ contents H b]"
  have r: "combineMW_heap a b H = Inr (c, H1)"
    using assms by (simp add: combineMW_heap_result c_def H1_def)
  have la: "length (contents H a) = slen a" and lb: "length (contents H b) = slen b"
    using assms by (simp_all add: length_contents)
  have v: "contents H1 c = contents H a @ contents H b"
    by (simp add: c_def H1_def contents_def array_at_def la lb)
  have m: "contents (heap_after ms a b H1) c = contents H1 c" for ms
  proof (rule contents_frame)
    have "apart (length H) a" "apart (length H) b"
      using assms by (simp_all add: wf_apart)
    moreover have "length H < length H1" by (simp add: H1_def)
    ultimately have "array_at (heap_after ms a b H1) (length H) = array_at H1 (length H)"
      by (rule mutate_frame)
    then show "array_at (heap_after ms a b H1) (sarr c) = array_at H1 (sarr c)"
      by (simp add: c_def)
  qed
  have ap: "case slice_append c v extra H1 of
              (c', H2) \<Rightarrow> contents H2 a = contents H a \<and> contents H2 b = contents H b
                         \<and> contents H2 c = contents H1 c" for v extra
  proof -
    have "slice_append c v extra H1 =
            (\<lparr>sarr = length H1, soff = 0, slen = slen c + 1, scap = slen c + 1 + extra\<rparr>,
             H1 @ [contents H1 c @ [v] @ replicate extra None])"
      by (simp add: slice_append_def c_def)
    moreover have "wf_slice H1 c"
      by (simp add: wf_slice_def c_def H1_def la lb)
    moreover have "contents (H1 @ ext) a = contents H a" for ext
      using contents_old[OF assms(1), of "[contents H a @ contents H b] @ ext"] by (simp add: H1_def)
    moreover have "contents (H1 @ ext) b = contents H b" for ext
      using contents_old[OF assms(2), of "[contents H a @ contents H b] @ ext"] by (simp add: H1_def)
    ultimately show ?thesis
      by (simp add: contents_old)
  qed
  have "sarr c = length H \<and> soff c = 0 \<and> scap c = slen c"
    by (simp add: c_def)
  with v m ap show ?thesis
    by (simp add: r combineMW_append H1_def[symmetric])
qed

section \<open>Groups\<close>

lemma Group_nest_value:
  "Group_nest g steps =
     \<lparr>group_prefix = group_prefix g @ concat (map fst steps),
      group_middleware = group_middleware g @ concat (map snd steps)\<rparr>"
proof (induction steps arbitrary: g)
  case Nil
  show ?case by (simp add: Group_nest_def)
next
  case (Cons x steps)
  obtain p ds where x: "x = (p, ds)" by (cases x)
  have "Group_nest g (x # steps) = Group_nest (Group_Group g p ds) steps"
    by (simp add: Group_nest_def x)
  then show ?case
    by (simp add: Cons.IH Group_Group_def combineMW_append x)
qed

lemma Group_Group_heap_result:
  assumes "wf_slice H (sg_middleware g)" and "wf_slice H s"
  shows "Group_Group_heap g p s H =
           Inr (\<lparr>sg_prefix = sg_prefix g @ p,
                 sg_middleware = \<lparr>sarr = length H, soff = 0,
                                   slen = slen (sg_middleware g) + slen s,
                                   scap = slen (sg_middleware g) + slen s\<rparr>\<rparr>,
                H @ [contents H (sg_middleware g) @ contents H s])"
  using assms by (simp add: Group_Group_heap_def combineMW_heap_result)

lemma Group_Group_heap_refines:
  assumes "wf_slice H (sg_middleware g)" and "wf_slice H s"
    and "Group_Group_heap g p s H = Inr (g', H1)"
  shows "group_of H1 g' = Group_Group (group_of H g) p (contents H s)"
    and "wf_slice H1 (sg_middleware g')"
    and "sarr (sg_middleware g') = length H"
    and "H1 = H @ [contents H (sg_middleware g) @ contents H s]"
proof -
  have la: "length (contents H (sg_middleware g)) = slen (sg_middleware g)"
    and lb: "length (contents H s) = slen s"
    using assms(1,2) by (simp_all add: length_contents)
  have g': "g' = \<lparr>sg_prefix = sg_prefix g @ p,
                 sg_middleware = \<lparr>sarr = length H, soff = 0,
                                   slen = slen (sg_middleware g) + slen s,
                                   scap = slen (sg_middleware g) + slen s\<rparr>\<rparr>"
    and H1: "H1 = H @ [contents H (sg_middleware g) @ contents H s]"
    using assms(3) Group_Group_heap_result[OF assms(1,2), of p] by simp_all
  show "group_of H1 g' = Group_Group (group_of H g) p (contents H s)"
    by (simp add: g' H1 group_of_def Group_Group_def combineMW_append contents_def array_at_def la lb)
  show "wf_slice H1 (sg_middleware g')"
    by (simp add: g' H1 wf_slice_def la lb)
  show "sarr (sg_middleware g') = length H"
    by (simp add: g')
  show "H1 = H @ [contents H (sg_middleware g) @ contents H s]"
    by (rule H1)
qed

lemma Group_nest_heap_refines:
  assumes "wf_slice H (sg_middleware g)" and "\<forall>x \<in> set steps. wf_slice H (snd x)"
  shows "\<exists>g' ext. Group_nest_heap g steps H = Inr (g', H @ ext)
           \<and> wf_slice (H @ ext) (sg_middleware g')
           \<and> group_of (H @ ext) g' =
               Group_nest (group_of H g) (map (\<lambda>(p, s). (p, contents H s)) steps)
           \<and> (steps \<noteq> [] \<longrightarrow> length H \<le> sarr (sg_middleware g'))"
  using assms
proof (induction steps arbitrary: g H)
  case Nil
  have "Group_nest_heap g [] H = Inr (g, H @ [])" by simp
  moreover have "wf_slice (H @ []) (sg_middleware g)" using Nil by simp
  moreover have "group_of (H @ []) g = Group_nest (group_of H g) []"
    by (simp add: Group_nest_def)
  ultimately show ?case by (intro exI[of _ g] exI[of _ "[]"]) simp
next
  case (Cons x steps)
  obtain p s where x: "x = (p, s)" by (cases x)
  have ws: "wf_slice H s" using Cons.prems(2) x by simp
  define H1 where "H1 = H @ [contents H (sg_middleware g) @ contents H s]"
  obtain g1 where r: "Group_Group_heap g p s H = Inr (g1, H1)"
    using Group_Group_heap_result[OF Cons.prems(1) ws, of p] by (simp add: H1_def)
  note f = Group_Group_heap_refines[OF Cons.prems(1) ws r]
  have w1: "\<forall>y \<in> set steps. wf_slice H1 (snd y)"
    using Cons.prems(2) by (simp add: H1_def wf_old)
  from Cons.IH[OF f(2) w1]
  obtain g' ext where n: "Group_nest_heap g1 steps H1 = Inr (g', H1 @ ext)"
    "wf_slice (H1 @ ext) (sg_middleware g')"
    "group_of (H1 @ ext) g' =
       Group_nest (group_of H1 g1) (map (\<lambda>(p, s). (p, contents H1 s)) steps)"
    "steps \<noteq> [] \<longrightarrow> length H1 \<le> sarr (sg_middleware g')"
    by blast
  have same: "map (\<lambda>(p, s). (p, contents H1 s)) steps = map (\<lambda>(p, s). (p, contents H s)) steps"
  proof (rule map_cong[OF refl])
    fix y assume "y \<in> set steps"
    then have "wf_slice H (snd y)" using Cons.prems(2) by simp
    then have "contents H1 (snd y) = contents H (snd y)"
      unfolding H1_def by (rule contents_old)
    then show "(case y of (p, s) \<Rightarrow> (p, contents H1 s)) = (case y of (p, s) \<Rightarrow> (p, contents H s))"
      by (cases y) simp
  qed
  have e: "H1 @ ext = H @ ([contents H (sg_middleware g) @ contents H s] @ ext)"
    by (simp add: H1_def)
  have 1: "Group_nest_heap g (x # steps) H =
           Inr (g', H @ ([contents H (sg_middleware g) @ contents H s] @ ext))"
    using r n(1) e by (simp add: x)
  have 2: "wf_slice (H @ ([contents H (sg_middleware g) @ contents H s] @ ext)) (sg_middleware g')"
    using n(2) e by simp
  have 3: "group_of (H @ ([contents H (sg_middleware g) @ contents H s] @ ext)) g' =
           Group_nest (group_of H g) (map (\<lambda>(p, s). (p, contents H s)) (x # steps))"
    using n(3) e same f(1) by (simp add: x Group_nest_def)
  have 4: "length H \<le> sarr (sg_middleware g')"
  proof (cases "steps = []")
    case True
    then have "g' = g1" using n(1) by simp
    then show ?thesis using f(3) by simp
  next
    case False
    then show ?thesis using n(4) by (simp add: H1_def)
  qed
  show ?case
    using 1 2 3 4 by blast
qed

text \<open>
  Claim C7. Every registration method of a Group with prefix \<open>P\<close> and decorators \<open>G\<close> is the
  Router's method of the same kind on the path \<open>P\<close> followed by the call's path, with the
  decorators \<open>G\<close> followed by the call's decorators. A sub-group has the prefix \<open>P\<close> followed
  by the new prefix and the decorators \<open>G\<close> followed by the new ones; after any number of
  nested \<^verbatim>\<open>Group\<close> calls the prefix is all the prefixes in order and the decorators all
  the decorator lists in order. On the store, \<^verbatim>\<open>Group.Group\<close> does not panic, the
  sub-group's decorator slice stands for that same sequence and lies in an array allocated
  by the call, which leaves the store it was given as it was; storing into or appending to
  the parent's slice or the caller's slice afterwards does not change the sub-group. The
  same holds after nested calls: the last sub-group's slice is beyond the arrays of the
  store the nesting started from.
\<close>

theorem C7_Group_forwarding:
  "Group_Handle g path h mws rt =
     Router_Handle (group_prefix g @ path) h (group_middleware g @ mws) rt
   \<and> Group_Method g m path h mws rt =
     Router_Method m (group_prefix g @ path) h (group_middleware g @ mws) rt
   \<and> Group_Read g path h mws rt =
     Router_Method ''read'' (group_prefix g @ path) h (group_middleware g @ mws) rt
   \<and> Group_Write g path h mws rt =
     Router_Method ''write'' (group_prefix g @ path) h (group_middleware g @ mws) rt
   \<and> Group_Update g path h mws rt =
     Router_Method ''update'' (group_prefix g @ path) h (group_middleware g @ mws) rt
   \<and> Group_Delete g path h mws rt =
     Router_Method ''delete'' (group_prefix g @ path) h (group_middleware g @ mws) rt
   \<and> Group_HandlePrefix g p h mws rt =
     Router_HandlePrefix (group_prefix g @ p) h (group_middleware g @ mws) rt
   \<and> Group_Group g p mws =
     \<lparr>group_prefix = group_prefix g @ p, group_middleware = group_middleware g @ mws\<rparr>
   \<and> Group_nest g steps =
     \<lparr>group_prefix = group_prefix g @ concat (map fst steps),
      group_middleware = group_middleware g @ concat (map snd steps)\<rparr>
   \<and> (wf_slice H (sg_middleware sg) \<and> wf_slice H s \<longrightarrow>
       (case Group_Group_heap sg p s H of
          Inl e \<Rightarrow> False
        | Inr (sg', H1) \<Rightarrow>
            group_of H1 sg' = Group_Group (group_of H sg) p (contents H s)
          \<and> sarr (sg_middleware sg') = length H
          \<and> H1 = H @ [contents H (sg_middleware sg) @ contents H s]
          \<and> (\<forall>ms. group_of (heap_after ms (sg_middleware sg) s H1) sg' = group_of H1 sg')))
   \<and> (wf_slice H (sg_middleware sg) \<and> (\<forall>x \<in> set ssteps. wf_slice H (snd x)) \<longrightarrow>
       (case Group_nest_heap sg ssteps H of
          Inl e \<Rightarrow> False
        | Inr (sg', H') \<Rightarrow>
            group_of H' sg' =
              Group_nest (group_of H sg) (map (\<lambda>(p, s). (p, contents H s)) ssteps)
          \<and> take (length H) H' = H
          \<and> (ssteps \<noteq> [] \<longrightarrow> length H \<le> sarr (sg_middleware sg'))))"
proof -
  have v: "Group_Handle g path h mws rt =
       Router_Handle (group_prefix g @ path) h (group_middleware g @ mws) rt
     \<and> Group_Method g m path h mws rt =
       Router_Method m (group_prefix g @ path) h (group_middleware g @ mws) rt
     \<and> Group_Read g path h mws rt =
       Router_Method ''read'' (group_prefix g @ path) h (group_middleware g @ mws) rt
     \<and> Group_Write g path h mws rt =
       Router_Method ''write'' (group_prefix g @ path) h (group_middleware g @ mws) rt
     \<and> Group_Update g path h mws rt =
       Router_Method ''update'' (group_prefix g @ path) h (group_middleware g @ mws) rt
     \<and> Group_Delete g path h mws rt =
       Router_Method ''delete'' (group_prefix g @ path) h (group_middleware g @ mws) rt
     \<and> Group_HandlePrefix g p h mws rt =
       Router_HandlePrefix (group_prefix g @ p) h (group_middleware g @ mws) rt
     \<and> Group_Group g p mws =
       \<lparr>group_prefix = group_prefix g @ p, group_middleware = group_middleware g @ mws\<rparr>"
    by (simp add: Group_Handle_def Group_Method_def Group_Read_def Group_Write_def
        Group_Update_def Group_Delete_def Group_HandlePrefix_def Group_Group_def
        MethodRead_def MethodWrite_def MethodUpdate_def MethodDelete_def combineMW_append)
  have one: "case Group_Group_heap sg p s H of
          Inl e \<Rightarrow> False
        | Inr (sg', H1) \<Rightarrow>
            group_of H1 sg' = Group_Group (group_of H sg) p (contents H s)
          \<and> sarr (sg_middleware sg') = length H
          \<and> H1 = H @ [contents H (sg_middleware sg) @ contents H s]
          \<and> (\<forall>ms. group_of (heap_after ms (sg_middleware sg) s H1) sg' = group_of H1 sg')"
    if w: "wf_slice H (sg_middleware sg)" "wf_slice H s"
  proof -
    define H1 where "H1 = H @ [contents H (sg_middleware sg) @ contents H s]"
    obtain sg' where r: "Group_Group_heap sg p s H = Inr (sg', H1)"
      using Group_Group_heap_result[OF w, of p] by (simp add: H1_def)
    note f = Group_Group_heap_refines[OF w r]
    have "group_of (heap_after ms (sg_middleware sg) s H1) sg' = group_of H1 sg'" for ms
    proof -
      have "apart (length H) (sg_middleware sg)" "apart (length H) s"
        using w by (simp_all add: wf_apart)
      moreover have "length H < length H1" by (simp add: H1_def)
      ultimately have "array_at (heap_after ms (sg_middleware sg) s H1) (length H) =
                       array_at H1 (length H)"
        by (rule mutate_frame)
      then have "contents (heap_after ms (sg_middleware sg) s H1) (sg_middleware sg') =
                 contents H1 (sg_middleware sg')"
        by (intro contents_frame) (simp add: f(3))
      then show ?thesis by (simp add: group_of_def)
    qed
    with f(1,3) show ?thesis
      by (simp add: r H1_def[symmetric])
  qed
  have many: "case Group_nest_heap sg ssteps H of
          Inl e \<Rightarrow> False
        | Inr (sg', H') \<Rightarrow>
            group_of H' sg' =
              Group_nest (group_of H sg) (map (\<lambda>(p, s). (p, contents H s)) ssteps)
          \<and> take (length H) H' = H
          \<and> (ssteps \<noteq> [] \<longrightarrow> length H \<le> sarr (sg_middleware sg'))"
    if w: "wf_slice H (sg_middleware sg)" "\<forall>x \<in> set ssteps. wf_slice H (snd x)"
  proof -
    from Group_nest_heap_refines[OF w]
    obtain sg' ext where n: "Group_nest_heap sg ssteps H = Inr (sg', H @ ext)"
      "group_of (H @ ext) sg' =
         Group_nest (group_of H sg) (map (\<lambda>(p, s). (p, contents H s)) ssteps)"
      "ssteps \<noteq> [] \<longrightarrow> length H \<le> sarr (sg_middleware sg')"
      by blast
    then show ?thesis by simp
  qed
  show ?thesis
    using v one many Group_nest_value[of g steps] by blast
qed

section \<open>The end-to-end examples and the empty prefix\<close>

lemma prefix_scan_skips_empty:
  "prefix pr = [] \<Longrightarrow>
   prefix_scan (xs @ pr # ys) path best n = prefix_scan (xs @ ys) path best n"
  by (induction xs arbitrary: best n) simp_all

lemma users_router_value:
  "users_router h1 h2 h3 catchall =
     Inr \<lparr>exact = Some [''write /users'' \<mapsto> \<lparr>handler = Some h1, middleware = []\<rparr>,
                         ''/users'' \<mapsto> \<lparr>handler = Some h2, middleware = []\<rparr>],
          prefixes = [\<lparr>prefix = catchall, route = \<lparr>handler = Some h3, middleware = []\<rparr>\<rparr>],
          notFound = None\<rparr>"
  by (simp add: users_router_def Router_Method_def Router_Handle_def Router_HandlePrefix_def
      NewRouter_def map_write_def)

lemma users_router_example:
  "find_on (users_router h1 h2 h3 ''/'') ''/users'' ''write'' [] = Inr (Some h1)
   \<and> find_on (users_router h1 h2 h3 ''/'') ''/users'' ''read'' [] = Inr (Some h2)
   \<and> find_on (users_router h1 h2 h3 ''/'') ''/other'' ''read'' [] = Inr (Some h3)"
  by (simp add: find_on_def users_router_value Router_Find_def map_read_def combineMW_append
      applyMiddleware_Nil HasPrefix_def)

lemma users_router_empty_catchall:
  "find_on (users_router h1 h2 h3 []) ''/other'' ''read'' [] = Inr None"
  by (simp add: find_on_def users_router_value Router_Find_def map_read_def HasPrefix_def)

text \<open>
  Claim C1, at the input where the code leaves it. With the three registrations of the
  end-to-end example \<^verbatim>\<open>Find\<close> resolves as the claim says. With the same registrations
  and the empty string as the catch-all prefix, the empty prefix is a prefix of
  \<open>/other\<close>, no exact key matches, and \<^verbatim>\<open>Find\<close> returns nil instead of \<open>h3\<close>.
\<close>

theorem C1_Find_tiers_and_empty_prefix:
  "find_on (users_router h1 h2 h3 ''/'') ''/users'' ''write'' [] = Inr (Some h1)
   \<and> find_on (users_router h1 h2 h3 ''/'') ''/users'' ''read'' [] = Inr (Some h2)
   \<and> find_on (users_router h1 h2 h3 ''/'') ''/other'' ''read'' [] = Inr (Some h3)
   \<and> HasPrefix ''/other'' []
   \<and> find_on (users_router h1 h2 h3 []) ''/other'' ''read'' [] = Inr None"
  using users_router_example[of h1 h2 h3] users_router_empty_catchall[of h1 h2 h3]
  by (simp add: HasPrefix_def)

lemma two_prefixes:
  "Router_Find (Router_HandlePrefix ''/ab'' (Some hab) []
                 (Router_HandlePrefix ''/a'' (Some ha) [] NewRouter)) ''/ab/x'' m [] = Inr (Some hab)
   \<and> Router_Find (Router_HandlePrefix ''/a'' (Some ha) []
                 (Router_HandlePrefix ''/ab'' (Some hab) [] NewRouter)) ''/ab/x'' m [] = Inr (Some hab)"
  by (simp add: Router_Find_def Router_HandlePrefix_def NewRouter_def map_read_def
      combineMW_append applyMiddleware_Nil HasPrefix_def)

text \<open>
  Claim C2, at the input where the code leaves it. With \<open>/a\<close> and \<open>/ab\<close> registered in
  either order, \<open>/ab/x\<close> resolves to the handler of \<open>/ab\<close>. The empty prefix is a prefix
  of every path, yet an entry with the empty prefix never changes the result of the scan,
  wherever it stands among the entries: a Router whose only route is
  \<^verbatim>\<open>HandlePrefix("", h)\<close> resolves no path to \<open>h\<close>.
\<close>

theorem C2_prefix_scan_and_empty_prefix:
  "Router_Find (Router_HandlePrefix ''/ab'' (Some hab) []
                 (Router_HandlePrefix ''/a'' (Some ha) [] NewRouter)) ''/ab/x'' m [] = Inr (Some hab)
   \<and> Router_Find (Router_HandlePrefix ''/a'' (Some ha) []
                 (Router_HandlePrefix ''/ab'' (Some hab) [] NewRouter)) ''/ab/x'' m [] = Inr (Some hab)
   \<and> HasPrefix path []
   \<and> prefix_scan (xs @ \<lparr>prefix = [], route = r\<rparr> # ys) path best n = prefix_scan (xs @ ys) path best n
   \<and> Router_Find (Router_HandlePrefix [] (Some h) [] NewRouter) path m [] = Inr None"
proof -
  have "Router_Find (Router_HandlePrefix [] (Some h) [] NewRouter) path m [] = Inr None"
    by (simp add: Router_Find_def Router_HandlePrefix_def NewRouter_def map_read_def)
  then show ?thesis
    using two_prefixes[of hab ha m]
    by (simp add: HasPrefix_def prefix_scan_skips_empty)
qed

section \<open>The theorems at concrete inputs\<close>



theorem C6_Find_composition_witness:
  "selected_route static_router ''/static/x'' ''read'' =
     Some \<lparr>handler = Some (tracing_handler ''H''), middleware = [tracing ''D'']\<rparr>
   \<and> Router_Find static_router ''/static/x'' ''read'' [tracing ''G''] =
     Inr (compose [passthrough_fn (emit ''G-before'') (emit ''G-after''),
                   passthrough_fn (emit ''D-before'') (emit ''D-after'')]
            (Some (tracing_handler ''H'')))
   \<and> selected_route static_router ''/missing'' ''read'' = None
   \<and> notFound static_router = Some (tracing_handler ''NF'')
   \<and> Router_Find static_router ''/missing'' ''read'' [tracing ''G''] =
     Inr (compose [passthrough_fn (emit ''G-before'') (emit ''G-after'')]
            (Some (tracing_handler ''NF'')))"
proof -
  define r where "r = \<lparr>handler = Some (tracing_handler ''H''), middleware = [tracing ''D'']\<rparr>"
  have 1: "selected_route static_router ''/static/x'' ''read'' = Some r"
    by (simp add: r_def selected_route_def static_router_def Router_SetNotFound_def
        Router_HandlePrefix_def NewRouter_def map_read_def HasPrefix_def)
  have 2: "middleware r = map Some [passthrough_fn (emit ''D-before'') (emit ''D-after'')]"
    by (simp add: r_def tracing_def passthrough_def)
  have 3: "selected_route static_router ''/missing'' ''read'' = None"
    by (simp add: selected_route_def static_router_def Router_SetNotFound_def
        Router_HandlePrefix_def NewRouter_def map_read_def HasPrefix_def)
  have 4: "notFound static_router = Some (tracing_handler ''NF'')"
    by (simp add: static_router_def Router_SetNotFound_def)
  have g: "[tracing ''G''] = map Some [passthrough_fn (emit ''G-before'') (emit ''G-after'')]"
    by (simp add: tracing_def passthrough_def)
  have "Router_Find static_router ''/static/x'' ''read''
          (map Some [passthrough_fn (emit ''G-before'') (emit ''G-after'')]) =
        Inr (compose ([passthrough_fn (emit ''G-before'') (emit ''G-after'')] @
                      [passthrough_fn (emit ''D-before'') (emit ''D-after'')]) (handler r))"
    using C6_Find_composition[of static_router "''/static/x''" "''read''" "[]" r
      "[passthrough_fn (emit ''D-before'') (emit ''D-after'')]"
      "[passthrough_fn (emit ''G-before'') (emit ''G-after'')]", THEN conjunct2, THEN conjunct1]
      1 2 by blast
  then have a: "Router_Find static_router ''/static/x'' ''read'' [tracing ''G''] =
     Inr (compose [passthrough_fn (emit ''G-before'') (emit ''G-after''),
                   passthrough_fn (emit ''D-before'') (emit ''D-after'')]
            (handler r))"
    unfolding g by simp
  have "Router_Find static_router ''/missing'' ''read''
          (map Some [passthrough_fn (emit ''G-before'') (emit ''G-after'')]) =
        Inr (compose [passthrough_fn (emit ''G-before'') (emit ''G-after'')]
               (Some (tracing_handler ''NF'')))"
    using C6_Find_composition[of static_router "''/missing''" "''read''" "[]" r "[]"
      "[passthrough_fn (emit ''G-before'') (emit ''G-after'')]" "tracing_handler ''NF''",
      THEN conjunct2, THEN conjunct2]
      3 4 by blast
  then have b: "Router_Find static_router ''/missing'' ''read'' [tracing ''G''] =
     Inr (compose [passthrough_fn (emit ''G-before'') (emit ''G-after'')]
            (Some (tracing_handler ''NF'')))"
    unfolding g by simp
  from a b 1 3 4 show ?thesis
    by (simp add: r_def)
qed

theorem C8_combineMW_fresh_storage_witness:
  "wf_slice numbers seqA \<and> wf_slice numbers seqB
   \<and> (case combineMW_heap seqA seqB numbers of
         Inl p \<Rightarrow> False
       | Inr (c, H1) \<Rightarrow>
           contents H1 c = [Some 2, Some 3, Some 1]
         \<and> H1 = [[Some 1, Some 2, Some 3, Some 4], [Some 2, Some 3, Some 1]]
         \<and> contents (heap_after [StoreA 0 (Some 8), AppendA (Some 9) 0, StoreB 0 (Some 7)]
                       seqA seqB H1) seqA = [Some 8, Some 3]
         \<and> contents (heap_after [StoreA 0 (Some 8), AppendA (Some 9) 0, StoreB 0 (Some 7)]
                       seqA seqB H1) c = [Some 2, Some 3, Some 1])"
proof -
  have 1: "wf_slice numbers seqA" and 2: "wf_slice numbers seqB"
    by (simp_all add: wf_slice_def numbers_def seqA_def seqB_def)
  define c where "c = \<lparr>sarr = Suc 0, soff = 0, slen = 3, scap = 3\<rparr>"
  define H1 where "H1 = [[Some (1::nat), Some 2, Some 3, Some 4], [Some 2, Some 3, Some 1]]"
  have r: "combineMW_heap seqA seqB numbers = Inr (c, H1)"
    by (simp add: combineMW_heap_result[OF 1 2] c_def H1_def)
       (simp add: numbers_def seqA_def seqB_def contents_def array_at_def)
  have v: "contents H1 c = [Some 2, Some 3, Some 1]"
    by (simp add: c_def H1_def contents_def array_at_def)
  from C8_combineMW_fresh_storage[OF 1 2]
  have "\<forall>ms. contents (heap_after ms seqA seqB H1) c = contents H1 c"
    by (simp only: r sum.case prod.case) blast
  then have "contents (heap_after [StoreA 0 (Some 8), AppendA (Some 9) 0, StoreB 0 (Some 7)]
                    seqA seqB H1) c = contents H1 c"
    by blast
  moreover have "contents (heap_after [StoreA 0 (Some 8), AppendA (Some 9) 0, StoreB 0 (Some 7)]
                    seqA seqB H1) seqA = [Some 8, Some 3]"
    by (simp add: heap_after_def H1_def seqA_def seqB_def slice_store_def slice_append_def
        array_at_def contents_def)
  ultimately show ?thesis
    using 1 2 v by (simp add: r) (simp add: H1_def)
qed

theorem C10_one_exact_table_witness:
  "Router_Handle ''write /users'' (Some (tracing_handler ''h'')) [] NewRouter =
     Inr \<lparr>exact = Some [''write /users'' \<mapsto> \<lparr>handler = Some (tracing_handler ''h''), middleware = []\<rparr>],
          prefixes = [], notFound = None\<rparr>
   \<and> Router_Method ''write'' ''/users'' (Some (tracing_handler ''h'')) [] NewRouter =
     Inr \<lparr>exact = Some [''write /users'' \<mapsto> \<lparr>handler = Some (tracing_handler ''h''), middleware = []\<rparr>],
          prefixes = [], notFound = None\<rparr>
   \<and> Router_Find
       \<lparr>exact = Some [''write /users'' \<mapsto> \<lparr>handler = Some (tracing_handler ''h''), middleware = []\<rparr>],
        prefixes = [], notFound = None\<rparr> ''/users'' ''write'' [] = Inr (Some (tracing_handler ''h''))
   \<and> map_read (exact (NewRouter :: ((string list) handler) Router)) ''read write /users'' = None
   \<and> Router_Find
       \<lparr>exact = Some [''write /users'' \<mapsto> \<lparr>handler = Some (tracing_handler ''h''), middleware = []\<rparr>],
        prefixes = [], notFound = None\<rparr> ''write /users'' ''read'' [] = Inr (Some (tracing_handler ''h''))"
proof -
  define rt1 where "rt1 =
    \<lparr>exact = Some [''write /users'' \<mapsto> \<lparr>handler = Some (tracing_handler ''h''), middleware = []\<rparr>],
     prefixes = [], notFound = None\<rparr>"
  have 1: "Router_Handle (''write'' @ '' '' @ ''/users'') (Some (tracing_handler ''h'')) [] NewRouter = Inr rt1"
    by (simp add: rt1_def Router_Handle_def NewRouter_def map_write_def)
  have 2: "Router_Method ''write'' ''/users'' (Some (tracing_handler ''h'')) [] NewRouter = Inr rt1"
    by (simp add: rt1_def Router_Method_def NewRouter_def map_write_def)
  have 3: "map_read (exact (NewRouter :: ((string list) handler) Router))
             (''read'' @ '' '' @ ''write'' @ '' '' @ ''/users'') = None"
    by (simp add: NewRouter_def map_read_def)
  note T = C10_one_exact_table[of "''write''" "''/users''" "Some (tracing_handler ''h'')" "[]"
      NewRouter _ _ rt1 "[]" rt1 "''read''"]
  have a: "Router_Find rt1 ''/users'' ''write'' [] = applyMiddleware (Some (tracing_handler ''h'')) ([] @ [])"
    using T 1 by blast
  have b: "Router_Find rt1 (''write'' @ '' '' @ ''/users'') ''read'' [] =
           applyMiddleware (Some (tracing_handler ''h'')) ([] @ [])"
    using T 2 3 by blast
  from a b 1 2 3 show ?thesis
    by (simp add: rt1_def applyMiddleware_Nil)
qed

theorem C7_Group_forwarding_witness:
  "wf_slice one_array (sg_middleware api_group) \<and> wf_slice one_array caller_slice
   \<and> (case Group_Group_heap api_group ''/admin'' caller_slice one_array of
         Inl e \<Rightarrow> False
       | Inr (sg', H1) \<Rightarrow>
           sg_prefix sg' = ''/api/admin''
         \<and> sarr (sg_middleware sg') = 1
         \<and> contents H1 (sg_middleware sg') = [tracing ''A'', tracing ''B'']
         \<and> contents (heap_after [AppendA (tracing ''X'') 0] (sg_middleware api_group) caller_slice H1)
             caller_slice = [tracing ''X'']
         \<and> group_of (heap_after [AppendA (tracing ''X'') 0] (sg_middleware api_group) caller_slice H1) sg' =
             \<lparr>group_prefix = ''/api/admin'', group_middleware = [tracing ''A'', tracing ''B'']\<rparr>)
   \<and> (case Group_nest_heap api_group
              [(''/admin'', caller_slice), (''/v2'', \<lparr>sarr = 0, soff = 0, slen = 0, scap = 0\<rparr>)]
              one_array of
         Inl e \<Rightarrow> False
       | Inr (sg', H') \<Rightarrow>
           group_of H' sg' =
             \<lparr>group_prefix = ''/api/admin/v2'', group_middleware = [tracing ''A'', tracing ''B'']\<rparr>
         \<and> 1 \<le> sarr (sg_middleware sg'))"
proof -
  define steps where
    "steps = [(''/admin'', caller_slice), (''/v2'', \<lparr>sarr = 0, soff = 0, slen = 0, scap = 0\<rparr>)]"
  have 1: "wf_slice one_array (sg_middleware api_group)" and 2: "wf_slice one_array caller_slice"
    by (simp_all add: wf_slice_def one_array_def api_group_def caller_slice_def)
  have 3: "\<forall>x \<in> set steps. wf_slice one_array (snd x)"
    using 2 by (simp add: steps_def wf_slice_def)
  note T = C7_Group_forwarding[where H = one_array and sg = api_group and s = caller_slice
      and p = "''/admin''" and ssteps = steps]
  define g1 where "g1 = \<lparr>sg_prefix = ''/api/admin'',
                         sg_middleware = \<lparr>sarr = Suc 0, soff = 0, slen = 2, scap = 2\<rparr>\<rparr>"
  define H1 where "H1 = one_array @ [[tracing ''A'', tracing ''B'']]"
  have r: "Group_Group_heap api_group ''/admin'' caller_slice one_array = Inr (g1, H1)"
    by (simp add: Group_Group_heap_result[OF 1 2] g1_def H1_def)
       (simp add: one_array_def api_group_def caller_slice_def contents_def array_at_def)
  have "case Group_Group_heap api_group ''/admin'' caller_slice one_array of
          Inl e \<Rightarrow> False
        | Inr (sg', H1) \<Rightarrow>
            group_of H1 sg' =
              Group_Group (group_of one_array api_group) ''/admin'' (contents one_array caller_slice)
          \<and> sarr (sg_middleware sg') = length one_array
          \<and> H1 = one_array @ [contents one_array (sg_middleware api_group) @
                                contents one_array caller_slice]
          \<and> (\<forall>ms. group_of (heap_after ms (sg_middleware api_group) caller_slice H1) sg' =
                    group_of H1 sg')"
    using T 1 2 by blast
  then have one: "\<forall>ms. group_of (heap_after ms (sg_middleware api_group) caller_slice H1) g1 =
                      group_of H1 g1"
    by (simp only: r sum.case prod.case) blast
  have v: "group_of H1 g1 =
             \<lparr>group_prefix = ''/api/admin'', group_middleware = [tracing ''A'', tracing ''B'']\<rparr>"
    by (simp add: group_of_def g1_def H1_def one_array_def contents_def array_at_def)
  have c1: "contents H1 (sg_middleware g1) = [tracing ''A'', tracing ''B'']"
    by (simp add: g1_def H1_def one_array_def contents_def array_at_def)
  have x: "contents (heap_after [AppendA (tracing ''X'') 0] (sg_middleware api_group) caller_slice H1)
             caller_slice = [tracing ''X'']"
    by (simp add: heap_after_def H1_def one_array_def api_group_def caller_slice_def
        slice_append_def array_at_def contents_def)
  have many: "case Group_nest_heap api_group steps one_array of
          Inl e \<Rightarrow> False
        | Inr (sg', H') \<Rightarrow>
            group_of H' sg' =
              Group_nest (group_of one_array api_group) (map (\<lambda>(p, s). (p, contents one_array s)) steps)
          \<and> take (length one_array) H' = one_array
          \<and> (steps \<noteq> [] \<longrightarrow> length one_array \<le> sarr (sg_middleware sg'))"
    using T 1 3 by blast
  have n: "Group_nest (group_of one_array api_group) (map (\<lambda>(p, s). (p, contents one_array s)) steps) =
           \<lparr>group_prefix = ''/api/admin/v2'', group_middleware = [tracing ''A'', tracing ''B'']\<rparr>"
    by (simp add: Group_nest_value group_of_def steps_def one_array_def api_group_def
        caller_slice_def contents_def array_at_def)
  have ne: "steps \<noteq> []" by (simp add: steps_def)
  have l: "length one_array = 1" by (simp add: one_array_def)
  have m: "case Group_nest_heap api_group steps one_array of
          Inl e \<Rightarrow> False
        | Inr (sg', H') \<Rightarrow>
            group_of H' sg' =
              \<lparr>group_prefix = ''/api/admin/v2'', group_middleware = [tracing ''A'', tracing ''B'']\<rparr>
          \<and> 1 \<le> sarr (sg_middleware sg')"
  proof (cases "Group_nest_heap api_group steps one_array")
    case (Inl e)
    with many show ?thesis by simp
  next
    case (Inr y)
    obtain sg' H' where y: "y = (sg', H')" by (cases y)
    from many have "group_of H' sg' =
              Group_nest (group_of one_array api_group) (map (\<lambda>(p, s). (p, contents one_array s)) steps)
          \<and> take (length one_array) H' = one_array
          \<and> (steps \<noteq> [] \<longrightarrow> length one_array \<le> sarr (sg_middleware sg'))"
      unfolding Inr y by simp
    with n ne l have "group_of H' sg' =
              \<lparr>group_prefix = ''/api/admin/v2'', group_middleware = [tracing ''A'', tracing ''B'']\<rparr>
          \<and> 1 \<le> sarr (sg_middleware sg')"
      by simp
    then show ?thesis by (simp only: Inr y sum.case prod.case)
  qed
  have p1: "sg_prefix g1 = ''/api/admin'' \<and> sarr (sg_middleware g1) = 1"
    by (simp add: g1_def)
  have p2: "group_of (heap_after [AppendA (tracing ''X'') 0] (sg_middleware api_group) caller_slice H1) g1 =
             \<lparr>group_prefix = ''/api/admin'', group_middleware = [tracing ''A'', tracing ''B'']\<rparr>"
    using one v by simp
  have p3: "case Group_Group_heap api_group ''/admin'' caller_slice one_array of
         Inl e \<Rightarrow> False
       | Inr (sg', H1) \<Rightarrow>
           sg_prefix sg' = ''/api/admin''
         \<and> sarr (sg_middleware sg') = 1
         \<and> contents H1 (sg_middleware sg') = [tracing ''A'', tracing ''B'']
         \<and> contents (heap_after [AppendA (tracing ''X'') 0] (sg_middleware api_group) caller_slice H1)
             caller_slice = [tracing ''X'']
         \<and> group_of (heap_after [AppendA (tracing ''X'') 0] (sg_middleware api_group) caller_slice H1) sg' =
             \<lparr>group_prefix = ''/api/admin'', group_middleware = [tracing ''A'', tracing ''B'']\<rparr>"
    using p1 p2 c1 x by (simp only: r sum.case prod.case)
  show ?thesis
    using 1 2 p3 m unfolding steps_def by blast
qed

end
